theory Spec2Isabelle
  imports Main
begin

section \<open>The record shapes of the two scrapers\<close>

text \<open>
  \<^verbatim>\<open>lotterry-scraper.js\<close> builds its records in \<^verbatim>\<open>fetchLottoData\<close>:
  \<^verbatim>\<open>{ date, prizes: { firstPrize, three_front, three_end, two_end }, lastUpdated }\<close>.
  Every prize field is \<^verbatim>\<open>x || null\<close>: \<^verbatim>\<open>null\<close> (\<open>None\<close>) or a truthy value,
  taken to be a string, which \<^verbatim>\<open>===\<close> compares by value. The stock scraper builds
  \<^verbatim>\<open>{ countryCode, stockName, threeDigits, twoDigits, lastUpdated }\<close>, all strings.
\<close>

record lottery_prizes =
  firstPrize :: "string option"
  three_front :: "string option"
  three_end :: "string option"
  two_end :: "string option"

record lottery_record =
  date :: string
  prizes :: lottery_prizes
  lastUpdated :: string

record stock_record =
  countryCode :: string
  stockName :: string
  threeDigits :: string
  twoDigits :: string
  lastUpdated :: string

section \<open>JavaScript \<^verbatim>\<open>Map\<close>\<close>

text \<open>
  A \<^verbatim>\<open>Map\<close> iterates in insertion order; \<^verbatim>\<open>set\<close> on a key that is already
  present replaces the value and keeps the key's position. \<^verbatim>\<open>new Map(entries)\<close>
  calls \<^verbatim>\<open>set\<close> for each entry, first to last.
\<close>

type_synonym ('k, 'v) js_map = "('k \<times> 'v) list"

primrec Map_set :: "'k \<Rightarrow> 'v \<Rightarrow> ('k, 'v) js_map \<Rightarrow> ('k, 'v) js_map" where
  "Map_set k v [] = [(k, v)]"
| "Map_set k v (e # es) = (if fst e = k then (k, v) # es else e # Map_set k v es)"

definition new_Map :: "('k \<times> 'v) list \<Rightarrow> ('k, 'v) js_map" where
  "new_Map entries = fold (\<lambda>(k, v). Map_set k v) entries []"

definition Map_get :: "('k, 'v) js_map \<Rightarrow> 'k \<Rightarrow> 'v option" where
  "Map_get m k = map_of m k"

definition Map_has :: "('k, 'v) js_map \<Rightarrow> 'k \<Rightarrow> bool" where
  "Map_has m k = (map_of m k \<noteq> None)"

section \<open>Change detection\<close>

text \<open>
  The entries of \<^verbatim>\<open>changes.updated\<close> are \<^verbatim>\<open>{ date, old, new }\<close> in the lottery
  scraper and \<^verbatim>\<open>{ stockName, old, new }\<close> in the stock scraper; \<open>key\<close> stands for
  the first field of either.
\<close>

record ('k, 'r) update_entry =
  key :: 'k
  old :: 'r
  new :: 'r

record ('k, 'r) change_set =
  added :: "'r list"
  updated :: "('k, 'r) update_entry list"
  removed :: "'r list"

definition no_changes :: "('k, 'r) change_set" where
  "no_changes = \<lparr>added = [], updated = [], removed = []\<rparr>"

text \<open>
  The two \<^verbatim>\<open>detectChanges\<close> methods differ only in the identity field
  (\<^verbatim>\<open>item.date\<close>, \<^verbatim>\<open>item.stockName\<close>) and in \<^verbatim>\<open>hasDataChanged\<close>, which are the
  parameters \<open>ident\<close> and \<open>changed\<close> here. The items are objects, hence truthy, so
  \<^verbatim>\<open>!oldItem\<close> holds exactly when \<^verbatim>\<open>oldMap.get\<close> finds nothing.
\<close>

definition detect_new ::
  "('r \<Rightarrow> 'r \<Rightarrow> bool) \<Rightarrow> ('k, 'r) js_map \<Rightarrow> 'k \<times> 'r \<Rightarrow> ('k, 'r) change_set \<Rightarrow> ('k, 'r) change_set" where
  "detect_new changed oldMap = (\<lambda>(k, newItem) changes.
     (case Map_get oldMap k of
        None \<Rightarrow> changes\<lparr>added := added changes @ [newItem]\<rparr>
      | Some oldItem \<Rightarrow>
          if changed oldItem newItem
          then changes\<lparr>updated := updated changes @ [\<lparr>key = k, old = oldItem, new = newItem\<rparr>]\<rparr>
          else changes))"

definition detect_removed ::
  "('k, 'r) js_map \<Rightarrow> 'k \<times> 'r \<Rightarrow> ('k, 'r) change_set \<Rightarrow> ('k, 'r) change_set" where
  "detect_removed newMap = (\<lambda>(k, oldItem) changes.
     if \<not> Map_has newMap k then changes\<lparr>removed := removed changes @ [oldItem]\<rparr> else changes)"

definition detectChanges ::
  "('r \<Rightarrow> 'k) \<Rightarrow> ('r \<Rightarrow> 'r \<Rightarrow> bool) \<Rightarrow> 'r list \<Rightarrow> 'r list \<Rightarrow> ('k, 'r) change_set" where
  "detectChanges ident changed oldData newData =
     (let oldMap = new_Map (map (\<lambda>item. (ident item, item)) oldData);
          newMap = new_Map (map (\<lambda>item. (ident item, item)) newData);
          changes = fold (detect_new changed oldMap) newMap no_changes
      in fold (detect_removed newMap) oldMap changes)"

definition arePrizesEqual :: "lottery_prizes \<Rightarrow> lottery_prizes \<Rightarrow> bool" where
  "arePrizesEqual p1 p2 \<longleftrightarrow>
     firstPrize p1 = firstPrize p2 \<and>
     three_front p1 = three_front p2 \<and>
     three_end p1 = three_end p2 \<and>
     two_end p1 = two_end p2"

definition lottery_hasDataChanged :: "lottery_record \<Rightarrow> lottery_record \<Rightarrow> bool" where
  "lottery_hasDataChanged oldItem newItem \<longleftrightarrow> \<not> arePrizesEqual (prizes oldItem) (prizes newItem)"

definition stock_hasDataChanged :: "stock_record \<Rightarrow> stock_record \<Rightarrow> bool" where
  "stock_hasDataChanged oldItem newItem \<longleftrightarrow>
     threeDigits oldItem \<noteq> threeDigits newItem \<or>
     twoDigits oldItem \<noteq> twoDigits newItem \<or>
     countryCode oldItem \<noteq> countryCode newItem"

definition lottery_detectChanges ::
  "lottery_record list \<Rightarrow> lottery_record list \<Rightarrow> (string, lottery_record) change_set" where
  "lottery_detectChanges = detectChanges date lottery_hasDataChanged"

definition stock_detectChanges ::
  "stock_record list \<Rightarrow> stock_record list \<Rightarrow> (string, stock_record) change_set" where
  "stock_detectChanges = detectChanges stockName stock_hasDataChanged"


section \<open>Configuration, errors, values and the effect trace\<close>

definition maxRetries :: nat where
  "maxRetries = 3"

definition retryDelay :: nat where
  "retryDelay = 5000"

text \<open>A thrown \<^verbatim>\<open>Error\<close>: its \<^verbatim>\<open>code\<close> (undefined unless the file system set it) and
  its \<^verbatim>\<open>message\<close>.\<close>

datatype error = Error (code: "string option") (message: string)

definition SyntaxError :: error where
  "SyntaxError = Error None ''Unexpected token in JSON''"

definition TypeError :: error where
  "TypeError = Error None ''TypeError''"

text \<open>
  What \<^verbatim>\<open>JSON.parse\<close> can return and \<^verbatim>\<open>currentData\<close> can hold. Arrays are arrays of
  well-formed records of the scraper's record type \<open>'r\<close>; an object is its list of
  properties.
\<close>

datatype 'r js_value =
    JNull
  | JBool bool
  | JNumber int
  | JString string
  | JArray "'r list"
  | JObject "(string \<times> 'r js_value) list"

fun truthy :: "'r js_value \<Rightarrow> bool" where
  "truthy JNull = False"
| "truthy (JBool b) = b"
| "truthy (JNumber n) = (n \<noteq> 0)"
| "truthy (JString s) = (s \<noteq> [])"
| "truthy (JArray xs) = True"
| "truthy (JObject ps) = True"

text \<open>
  \<^verbatim>\<open>parsedData.data\<close>: reading a property of \<^verbatim>\<open>null\<close> throws a TypeError; an object
  yields the property or \<^verbatim>\<open>undefined\<close> (\<open>None\<close>); arrays, strings, numbers and
  booleans have no property \<^verbatim>\<open>data\<close>.
\<close>

fun get_data :: "'r js_value \<Rightarrow> error + 'r js_value option" where
  "get_data JNull = Inl TypeError"
| "get_data (JObject ps) = Inr (map_of ps ''data'')"
| "get_data v = Inr None"

text \<open>\<^verbatim>\<open>a || b\<close> where \<^verbatim>\<open>a\<close> may be \<^verbatim>\<open>undefined\<close>.\<close>

definition js_or :: "'r js_value option \<Rightarrow> 'r js_value \<Rightarrow> 'r js_value" where
  "js_or a b = (case a of None \<Rightarrow> b | Some v \<Rightarrow> if truthy v then v else b)"

text \<open>
  The text of the data file is either the serialisation of a value or something
  \<^verbatim>\<open>JSON.parse\<close> rejects. \<^verbatim>\<open>JSON.parse (JSON.stringify v)\<close> is \<^verbatim>\<open>v\<close> for the
  values above; that property of the runtime is built into the representation.
\<close>

datatype 'r file_text = Json "'r js_value" | Garbage string

definition JSON_stringify :: "'r js_value \<Rightarrow> 'r file_text" where
  "JSON_stringify v = Json v"

fun JSON_parse :: "'r file_text \<Rightarrow> error + 'r js_value" where
  "JSON_parse (Json v) = Inr v"
| "JSON_parse (Garbage t) = Inl SyntaxError"

text \<open>The lines passed to \<^verbatim>\<open>this.log\<close>, without their formatting.\<close>

datatype log_msg =
    LoadedRecords
  | NoExistingFile
  | LoadError string
  | SavedRecords nat
  | SaveError string
  | ExtractionAttempt nat
  | ExtractedResults nat
  | ExtractedLottery string
  | AttemptFailed nat string
  | AllAttemptsFailed
  | FetchingLatest
  | NoDataFound nat
  | IncompletePrizeData
  | NoNewData
  | AddedCount nat
  | AddedItem string
  | UpdatedCount nat
  | UpdatedItem string
  | UpdatedDetail string
  | RemovedCount nat
  | RemovedItem string
  | DataUpdated nat
  | NoChangesDetected
  | CycleStarting
  | CycleCompleted
  | CycleFailed string
  | NextRunScheduled nat
  | AlreadyRunning
  | SchedulerStarting
  | SchedulerStarted
  | NotRunning
  | SchedulerStopped

text \<open>
  What a manager does to the outside, in the order it does it: a line logged; the
  fetcher invoked (the request of \<^verbatim>\<open>fetchLottoData\<close>, a call of
  \<^verbatim>\<open>extractStockResults\<close>); a wait of so many milliseconds; a call of
  \<^verbatim>\<open>fs.writeFile\<close>; \<^verbatim>\<open>setTimeout\<close> returning a handle for a delay;
  \<^verbatim>\<open>clearTimeout\<close> of a handle.
\<close>

datatype event =
    Log log_msg
  | FetcherCalled
  | Sleep nat
  | WriteFile
  | SetTimeout nat nat
  | ClearTimeout nat

text \<open>
  What the outside decides during one operation: the clock reading of
  \<^verbatim>\<open>new Date().toISOString()\<close>, and whether \<^verbatim>\<open>fs.readFile\<close> and
  \<^verbatim>\<open>fs.writeFile\<close> fail for a reason other than a missing file.
\<close>

record env =
  now :: string
  readError :: "error option"
  writeError :: "error option"

text \<open>
  The fields of a manager (\<open>currentData\<close>, \<open>isRunning\<close>, \<open>timeoutId\<close>) together
  with the part of the world it acts on: the data file (\<open>None\<close> when it does not
  exist), the one-shot timers that are armed, the number of timers created so far
  (the next timer's handle), and the trace of effects.
\<close>

record 'r manager =
  currentData :: "'r js_value"
  isRunning :: bool
  timeoutId :: "nat option"
  dataFile :: "'r file_text option"
  timers :: "nat list"
  timerCount :: nat
  events :: "event list"

definition constructor :: "'r file_text option \<Rightarrow> 'r manager" where
  "constructor file =
     \<lparr>currentData = JArray [], isRunning = False, timeoutId = None,
      dataFile = file, timers = [], timerCount = 0, events = []\<rparr>"

definition emit :: "event \<Rightarrow> 'r manager \<Rightarrow> 'r manager" where
  "emit e s = s\<lparr>events := events s @ [e]\<rparr>"

definition log :: "log_msg \<Rightarrow> 'r manager \<Rightarrow> 'r manager" where
  "log m = emit (Log m)"

section \<open>The snapshot file\<close>

definition fs_readFile :: "env \<Rightarrow> 'r manager \<Rightarrow> error + 'r file_text" where
  "fs_readFile e s =
     (case readError e of
        Some err \<Rightarrow> Inl err
      | None \<Rightarrow> (case dataFile s of
                  None \<Rightarrow> Inl (Error (Some ''ENOENT'') ''no such file or directory'')
                | Some content \<Rightarrow> Inr content))"

text \<open>A write that fails is taken to leave the file as it was.\<close>

definition fs_writeFile :: "env \<Rightarrow> 'r file_text \<Rightarrow> 'r manager \<Rightarrow> (error + unit) \<times> 'r manager" where
  "fs_writeFile e content s =
     (case writeError e of
        Some err \<Rightarrow> (Inl err, emit WriteFile s)
      | None \<Rightarrow> (Inr (), emit WriteFile (s\<lparr>dataFile := Some content\<rparr>)))"

definition load_failed :: "error \<Rightarrow> 'r manager \<Rightarrow> 'r manager" where
  "load_failed err s =
     (if code err = Some ''ENOENT''
      then (log NoExistingFile s)\<lparr>currentData := JArray []\<rparr>
      else (log (LoadError (message err)) s)\<lparr>currentData := JArray []\<rparr>)"

definition loadExistingData :: "env \<Rightarrow> 'r manager \<Rightarrow> 'r manager" where
  "loadExistingData e s =
     (case fs_readFile e s of
        Inl err \<Rightarrow> load_failed err s
      | Inr content \<Rightarrow>
          (case JSON_parse content of
             Inl err \<Rightarrow> load_failed err s
           | Inr parsedData \<Rightarrow>
               (case get_data parsedData of
                  Inl err \<Rightarrow> load_failed err s
                | Inr d \<Rightarrow> log LoadedRecords (s\<lparr>currentData := js_or d parsedData\<rparr>))))"

definition saveData :: "env \<Rightarrow> 'r list \<Rightarrow> 'r manager \<Rightarrow> 'r manager" where
  "saveData e data s =
     (let dataToSave = JObject
            [(''lastUpdated'', JString (now e)),
             (''recordCount'', JNumber (int (length data))),
             (''data'', JArray data)]
      in case fs_writeFile e (JSON_stringify dataToSave) s of
           (Inr u, s') \<Rightarrow> log (SavedRecords (length data)) s'
         | (Inl err, s') \<Rightarrow> log (SaveError (message err)) s')"

section \<open>Fetching with retries\<close>

text \<open>
  The lottery API's answer to one \<^verbatim>\<open>fetch\<close>: the request, \<^verbatim>\<open>response.json()\<close> or
  the reading of \<^verbatim>\<open>data.response\<close> throws; or a response arrives with its \<^verbatim>\<open>ok\<close>
  flag, its status and \<^verbatim>\<open>data.response\<close> (\<open>None\<close> when absent or \<^verbatim>\<open>null\<close>). Of
  a result only the fields that \<^verbatim>\<open>fetchLottoData\<close> reads are kept.
\<close>

record api_entry =
  number :: "string option"

record api_result =
  drawDate :: "string option"
  resultPrizes :: "api_entry list option"
  runningNumbers :: "api_entry list option"

datatype api_reply =
    Rejects error
  | Response bool nat "api_result option"

text \<open>\<^verbatim>\<open>xs?.[i]?.number || null\<close>: an absent list, entry or number and the empty
  string all give \<^verbatim>\<open>null\<close>.\<close>

definition number_or_null :: "api_entry list option \<Rightarrow> nat \<Rightarrow> string option" where
  "number_or_null xs i =
     (case xs of
        None \<Rightarrow> None
      | Some es \<Rightarrow>
          if i < length es
          then (case number (es ! i) of None \<Rightarrow> None | Some n \<Rightarrow> if n = [] then None else Some n)
          else None)"

definition fetchLottoData ::
  "env \<Rightarrow> api_reply \<Rightarrow> lottery_record manager \<Rightarrow> (error + lottery_record option) \<times> lottery_record manager" where
  "fetchLottoData e reply s =
     (let s1 = emit FetcherCalled (log FetchingLatest s)
      in case reply of
           Rejects err \<Rightarrow> (Inl err, s1)
         | Response ok status result \<Rightarrow>
             if \<not> ok then (Inr None, log (NoDataFound status) s1)
             else
               (case result of
                  None \<Rightarrow> (Inr None, log IncompletePrizeData s1)
                | Some r \<Rightarrow>
                    (case resultPrizes r of
                       None \<Rightarrow> (Inr None, log IncompletePrizeData s1)
                     | Some prizeList \<Rightarrow>
                         if length prizeList = 0 then (Inr None, log IncompletePrizeData s1)
                         else
                           (let d = (case drawDate r of
                                       None \<Rightarrow> now e
                                     | Some t \<Rightarrow> if t = [] then now e else t);
                                ps = \<lparr>firstPrize = number_or_null (resultPrizes r) 0,
                                      three_front = number_or_null (runningNumbers r) 0,
                                      three_end = number_or_null (runningNumbers r) 1,
                                      two_end = number_or_null (runningNumbers r) 2\<rparr>
                            in (Inr (Some \<lparr>date = d, prizes = ps, lastUpdated = now e\<rparr>), s1)))))"

text \<open>
  The \<^verbatim>\<open>for\<close> loop of the lottery scraper's \<^verbatim>\<open>extractWithRetry\<close>, entered with the
  attempt number. \<open>replies n\<close> is what the API answers at attempt \<open>n\<close>. A \<^verbatim>\<open>null\<close>
  result leaves the \<^verbatim>\<open>try\<close> block without returning and without reaching
  \<^verbatim>\<open>catch\<close>, so the loop goes on with the next attempt.
\<close>

function lottery_retry_loop ::
  "env \<Rightarrow> (nat \<Rightarrow> api_reply) \<Rightarrow> nat \<Rightarrow> lottery_record manager
     \<Rightarrow> (error + lottery_record list option) \<times> lottery_record manager" where
  "lottery_retry_loop e replies attempt s =
     (if attempt \<le> maxRetries then
        (case fetchLottoData e (replies attempt) (log (ExtractionAttempt attempt) s) of
           (Inr result, s1) \<Rightarrow>
             (case result of
                Some r \<Rightarrow> (Inr (Some [r]), log (ExtractedLottery (date r)) s1)
              | None \<Rightarrow> lottery_retry_loop e replies (attempt + 1) s1)
         | (Inl err, s1) \<Rightarrow>
             (let s2 = log (AttemptFailed attempt (message err)) s1
              in if attempt = maxRetries then (Inl err, s2)
                 else lottery_retry_loop e replies (attempt + 1) (emit (Sleep retryDelay) s2)))
      else (Inr None, log AllAttemptsFailed s))"
  by pat_completeness auto
termination
  by (relation "measure (\<lambda>(e, replies, attempt, s). maxRetries + 1 - attempt)") auto

declare lottery_retry_loop.simps [simp del]

definition lottery_extractWithRetry ::
  "env \<Rightarrow> (nat \<Rightarrow> api_reply) \<Rightarrow> lottery_record manager
     \<Rightarrow> (error + lottery_record list option) \<times> lottery_record manager" where
  "lottery_extractWithRetry e replies s = lottery_retry_loop e replies 1 s"

text \<open>
  The stock scraper's \<^verbatim>\<open>extractStockResults\<close> drives a browser; \<open>pages n\<close> is its
  outcome at attempt \<open>n\<close>: the rows it extracted, or the error it threw. Falling out
  of the loop would return \<^verbatim>\<open>undefined\<close> (\<open>None\<close>).
\<close>

function stock_retry_loop ::
  "(nat \<Rightarrow> error + stock_record list) \<Rightarrow> nat \<Rightarrow> stock_record manager
     \<Rightarrow> (error + stock_record list option) \<times> stock_record manager" where
  "stock_retry_loop pages attempt s =
     (if attempt \<le> maxRetries then
        (let s1 = emit FetcherCalled (log (ExtractionAttempt attempt) s)
         in case pages attempt of
              Inr results \<Rightarrow> (Inr (Some results), log (ExtractedResults (length results)) s1)
            | Inl err \<Rightarrow>
                (let s2 = log (AttemptFailed attempt (message err)) s1
                 in if attempt = maxRetries then (Inl err, s2)
                    else stock_retry_loop pages (attempt + 1) (emit (Sleep retryDelay) s2)))
      else (Inr None, s))"
  by pat_completeness auto
termination
  by (relation "measure (\<lambda>(pages, attempt, s). maxRetries + 1 - attempt)") auto

declare stock_retry_loop.simps [simp del]

definition stock_extractWithRetry ::
  "(nat \<Rightarrow> error + stock_record list) \<Rightarrow> stock_record manager
     \<Rightarrow> (error + stock_record list option) \<times> stock_record manager" where
  "stock_extractWithRetry pages s = stock_retry_loop pages 1 s"

section \<open>Processing a fetched record set\<close>

text \<open>
  \<^verbatim>\<open>oldData.map\<close> and \<^verbatim>\<open>newData.map\<close> in \<^verbatim>\<open>detectChanges\<close> throw a TypeError
  when the receiver is not an array.
\<close>

definition as_array :: "'r js_value \<Rightarrow> error + 'r list" where
  "as_array v = (case v of JArray xs \<Rightarrow> Inr xs | _ \<Rightarrow> Inl TypeError)"

definition totalChanges :: "('k, 'r) change_set \<Rightarrow> nat" where
  "totalChanges changes =
     length (added changes) + length (updated changes) + length (removed changes)"

definition log_each :: "('a \<Rightarrow> log_msg list) \<Rightarrow> 'a list \<Rightarrow> 'r manager \<Rightarrow> 'r manager" where
  "log_each lines xs = fold (\<lambda>x. fold log (lines x)) xs"

text \<open>
  The body that the two \<^verbatim>\<open>processNewData\<close> methods share, from the call of
  \<^verbatim>\<open>detectChanges\<close> on: they differ in the identity field, in \<^verbatim>\<open>hasDataChanged\<close>
  and in the number of lines logged for an updated record (\<open>updatedLines\<close>).
\<close>

definition process_changes ::
  "('r \<Rightarrow> string) \<Rightarrow> ('r \<Rightarrow> 'r \<Rightarrow> bool) \<Rightarrow> ((string, 'r) update_entry \<Rightarrow> log_msg list)
     \<Rightarrow> env \<Rightarrow> 'r list option \<Rightarrow> 'r manager \<Rightarrow> (error + (string, 'r) change_set) \<times> 'r manager" where
  "process_changes ident changed updatedLines e newData s =
     (case as_array (currentData s) of
        Inl err \<Rightarrow> (Inl err, s)
      | Inr oldData \<Rightarrow>
          (case newData of
             None \<Rightarrow> (Inl TypeError, s)
           | Some newRecords \<Rightarrow>
               (let changes = detectChanges ident changed oldData newRecords;
                    s1 = (if length (added changes) > 0
                          then log_each (\<lambda>r. [AddedItem (ident r)]) (added changes)
                                 (log (AddedCount (length (added changes))) s)
                          else s);
                    s2 = (if length (updated changes) > 0
                          then log_each updatedLines (updated changes)
                                 (log (UpdatedCount (length (updated changes))) s1)
                          else s1);
                    s3 = (if length (removed changes) > 0
                          then log_each (\<lambda>r. [RemovedItem (ident r)]) (removed changes)
                                 (log (RemovedCount (length (removed changes))) s2)
                          else s2);
                    total = totalChanges changes
                in if total > 0
                   then (Inr changes,
                         log (DataUpdated total)
                           (saveData e newRecords (s3\<lparr>currentData := JArray newRecords\<rparr>)))
                   else (Inr changes, log NoChangesDetected s3))))"

definition lottery_processNewData ::
  "env \<Rightarrow> lottery_record list option \<Rightarrow> lottery_record manager
     \<Rightarrow> (error + (string, lottery_record) change_set) \<times> lottery_record manager" where
  "lottery_processNewData e newData s =
     (case newData of
        None \<Rightarrow> (Inr no_changes, log NoNewData s)
      | Some newRecords \<Rightarrow>
          if length newRecords = 0 then (Inr no_changes, log NoNewData s)
          else process_changes date lottery_hasDataChanged
                 (\<lambda>change. [UpdatedItem (key change), UpdatedDetail (key change)]) e newData s)"

definition stock_processNewData ::
  "env \<Rightarrow> stock_record list option \<Rightarrow> stock_record manager
     \<Rightarrow> (error + (string, stock_record) change_set) \<times> stock_record manager" where
  "stock_processNewData e newData s =
     process_changes stockName stock_hasDataChanged
       (\<lambda>change. [UpdatedItem (key change)]) e newData s"

section \<open>The scraping cycle and the scheduler\<close>

text \<open>
  Each operation is run to its end: what another operation would do at one of its
  \<^verbatim>\<open>await\<close>s is not modelled.
\<close>

definition lottery_runScrapingCycle ::
  "env \<Rightarrow> (nat \<Rightarrow> api_reply) \<Rightarrow> lottery_record manager \<Rightarrow> lottery_record manager" where
  "lottery_runScrapingCycle e replies s =
     (case lottery_extractWithRetry e replies (log CycleStarting s) of
        (Inl err, s1) \<Rightarrow> log (CycleFailed (message err)) s1
      | (Inr newData, s1) \<Rightarrow>
          (case lottery_processNewData e newData s1 of
             (Inl err, s2) \<Rightarrow> log (CycleFailed (message err)) s2
           | (Inr changes, s2) \<Rightarrow> log CycleCompleted s2))"

definition stock_runScrapingCycle ::
  "env \<Rightarrow> (nat \<Rightarrow> error + stock_record list) \<Rightarrow> stock_record manager \<Rightarrow> stock_record manager" where
  "stock_runScrapingCycle e pages s =
     (case stock_extractWithRetry pages (log CycleStarting s) of
        (Inl err, s1) \<Rightarrow> log (CycleFailed (message err)) s1
      | (Inr newData, s1) \<Rightarrow>
          (case stock_processNewData e newData s1 of
             (Inl err, s2) \<Rightarrow> log (CycleFailed (message err)) s2
           | (Inr changes, s2) \<Rightarrow> log CycleCompleted s2))"

text \<open>
  \<^verbatim>\<open>scheduleNextRun\<close>, given the value \<open>interval\<close> of \<^verbatim>\<open>getRandomInterval()\<close>: it
  arms a one-shot timer and keeps its handle in \<open>timeoutId\<close>.
\<close>

definition scheduleNextRun :: "nat \<Rightarrow> 'r manager \<Rightarrow> 'r manager" where
  "scheduleNextRun interval s =
     (if \<not> isRunning s then s
      else
        (let s1 = log (NextRunScheduled interval) s;
             h = timerCount s1
         in (emit (SetTimeout h interval) s1)
              \<lparr>timers := timers s1 @ [h], timerCount := h + 1, timeoutId := Some h\<rparr>))"

text \<open>
  The callback that \<^verbatim>\<open>scheduleNextRun\<close> passes to \<^verbatim>\<open>setTimeout\<close>, run when the armed
  timer \<open>h\<close> fires; \<open>cycle\<close> is the manager's \<^verbatim>\<open>runScrapingCycle\<close>.
\<close>

definition timer_fires ::
  "('r manager \<Rightarrow> 'r manager) \<Rightarrow> nat \<Rightarrow> nat \<Rightarrow> 'r manager \<Rightarrow> 'r manager" where
  "timer_fires cycle interval h s =
     (let s1 = s\<lparr>timers := removeAll h (timers s)\<rparr>
      in if isRunning s1 then scheduleNextRun interval (cycle s1) else s1)"

definition start ::
  "('r manager \<Rightarrow> 'r manager) \<Rightarrow> env \<Rightarrow> nat \<Rightarrow> 'r manager \<Rightarrow> 'r manager" where
  "start cycle e interval s =
     (if isRunning s then log AlreadyRunning s
      else
        (let s1 = log SchedulerStarting (s\<lparr>isRunning := True\<rparr>);
             s2 = loadExistingData e s1;
             s3 = cycle s2;
             s4 = scheduleNextRun interval s3
         in log SchedulerStarted s4))"

definition lottery_start ::
  "env \<Rightarrow> (nat \<Rightarrow> api_reply) \<Rightarrow> nat \<Rightarrow> lottery_record manager \<Rightarrow> lottery_record manager" where
  "lottery_start e replies interval s = start (lottery_runScrapingCycle e replies) e interval s"

definition stock_start ::
  "env \<Rightarrow> (nat \<Rightarrow> error + stock_record list) \<Rightarrow> nat \<Rightarrow> stock_record manager \<Rightarrow> stock_record manager" where
  "stock_start e pages interval s = start (stock_runScrapingCycle e pages) e interval s"

text \<open>A timer handle is an object or a positive number, hence truthy: \<^verbatim>\<open>if (this.timeoutId)\<close>
  tests that one is stored.\<close>

definition stop :: "'r manager \<Rightarrow> 'r manager" where
  "stop s =
     (if \<not> isRunning s then log NotRunning s
      else
        (let s1 = s\<lparr>isRunning := False\<rparr>;
             s2 = (case timeoutId s1 of
                     None \<Rightarrow> s1
                   | Some h \<Rightarrow> (emit (ClearTimeout h) s1)
                                 \<lparr>timers := removeAll h (timers s1), timeoutId := None\<rparr>)
         in log SchedulerStopped s2))"

section \<open>Observations\<close>

text \<open>The effects that happened between two states of a manager.\<close>

definition events_since :: "'r manager \<Rightarrow> 'r manager \<Rightarrow> event list" where
  "events_since s s' = drop (length (events s)) (events s')"

text \<open>
  The change set that \<^verbatim>\<open>processNewData\<close> hands back to \<^verbatim>\<open>runScrapingCycle\<close>
  (which drops it): \<open>None\<close> when the cycle ends in its \<^verbatim>\<open>catch\<close> block. It has
  changes when it exists and \<open>totalChanges\<close> is positive.
\<close>

definition lottery_cycle_changes ::
  "env \<Rightarrow> (nat \<Rightarrow> api_reply) \<Rightarrow> lottery_record manager \<Rightarrow> (string, lottery_record) change_set option" where
  "lottery_cycle_changes e replies s =
     (case lottery_extractWithRetry e replies (log CycleStarting s) of
        (Inl err, s1) \<Rightarrow> None
      | (Inr newData, s1) \<Rightarrow>
          (case lottery_processNewData e newData s1 of
             (Inl err, s2) \<Rightarrow> None
           | (Inr changes, s2) \<Rightarrow> Some changes))"

definition stock_cycle_changes ::
  "env \<Rightarrow> (nat \<Rightarrow> error + stock_record list) \<Rightarrow> stock_record manager
     \<Rightarrow> (string, stock_record) change_set option" where
  "stock_cycle_changes e pages s =
     (case stock_extractWithRetry pages (log CycleStarting s) of
        (Inl err, s1) \<Rightarrow> None
      | (Inr newData, s1) \<Rightarrow>
          (case stock_processNewData e newData s1 of
             (Inl err, s2) \<Rightarrow> None
           | (Inr changes, s2) \<Rightarrow> Some changes))"

definition cycle_has_changes :: "('k, 'r) change_set option \<Rightarrow> bool" where
  "cycle_has_changes c = (case c of None \<Rightarrow> False | Some changes \<Rightarrow> totalChanges changes > 0)"

text \<open>
  At most one timer is armed, only while the scheduler runs, and \<open>timeoutId\<close> holds
  its handle.
\<close>

definition scheduler_inv :: "'r manager \<Rightarrow> bool" where
  "scheduler_inv s =
     (case timers s of
        [] \<Rightarrow> True
      | [h] \<Rightarrow> isRunning s \<and> timeoutId s = Some h
      | _ \<Rightarrow> False)"

text \<open>
  Two summaries used in the proofs. A call of \<^verbatim>\<open>processNewData\<close> either raises and
  leaves the state as it is, or returns the empty change set and logs one line, or
  returns a change set with an entry, having replaced \<open>currentData\<close> by a different
  record list and called \<^verbatim>\<open>fs.writeFile\<close>. A scraping cycle either has no changes and
  touches nothing but the trace, without a write, or has changes and has replaced
  \<open>currentData\<close>, with a write.
\<close>

definition process_outcome ::
  "(error + ('k, 'r) change_set) \<times> 'r manager \<Rightarrow> 'r manager \<Rightarrow> bool" where
  "process_outcome res s \<longleftrightarrow>
     (\<exists>err. res = (Inl err, s)) \<or>
     (\<exists>m. res = (Inr no_changes, log m s)) \<or>
     (\<exists>changes newRecords file evs.
        res = (Inr changes, s\<lparr>currentData := JArray newRecords, dataFile := file,
                                events := events s @ evs\<rparr>) \<and>
        totalChanges changes > 0 \<and> JArray newRecords \<noteq> currentData s \<and> WriteFile \<in> set evs)"

definition cycle_outcome ::
  "('k, 'r) change_set option \<Rightarrow> 'r manager \<Rightarrow> 'r manager \<Rightarrow> bool" where
  "cycle_outcome c s s' \<longleftrightarrow>
     (\<not> cycle_has_changes c \<and>
      (\<exists>evs. s' = s\<lparr>events := events s @ evs\<rparr> \<and> WriteFile \<notin> set evs)) \<or>
     (cycle_has_changes c \<and>
      (\<exists>newRecords file evs.
         s' = s\<lparr>currentData := JArray newRecords, dataFile := file, events := events s @ evs\<rparr> \<and>
         JArray newRecords \<noteq> currentData s \<and> WriteFile \<in> set evs))"

section \<open>Example data\<close>

text \<open>Records, environments, fetcher behaviours and manager states for the concrete
  instances below.\<close>

definition lot :: "string \<Rightarrow> string \<Rightarrow> string \<Rightarrow> lottery_record" where
  "lot d p t =
     \<lparr>date = d,
      prizes = \<lparr>firstPrize = Some p, three_front = None, three_end = None, two_end = None\<rparr>,
      lastUpdated = t\<rparr>"

definition stk :: "string \<Rightarrow> string \<Rightarrow> string \<Rightarrow> stock_record" where
  "stk n v t =
     \<lparr>countryCode = ''us'', stockName = n, threeDigits = v, twoDigits = ''00'', lastUpdated = t\<rparr>"

definition env0 :: env where
  "env0 = \<lparr>now = ''t9'', readError = None, writeError = None\<rparr>"

definition network_down :: error where
  "network_down = Error None ''fetch failed''"

definition always_rejects :: "nat \<Rightarrow> api_reply" where
  "always_rejects n = Rejects network_down"

definition always_throws :: "nat \<Rightarrow> error + stock_record list" where
  "always_throws n = Inl network_down"

definition draw_result :: api_result where
  "draw_result =
     \<lparr>drawDate = Some ''d1'',
      resultPrizes = Some [\<lparr>number = Some ''123456''\<rparr>],
      runningNumbers =
        Some [\<lparr>number = Some ''111''\<rparr>, \<lparr>number = Some ''222''\<rparr>, \<lparr>number = Some ''33''\<rparr>]\<rparr>"

definition draw_record :: lottery_record where
  "draw_record =
     \<lparr>date = ''d1'',
      prizes = \<lparr>firstPrize = Some ''123456'', three_front = Some ''111'',
                three_end = Some ''222'', two_end = Some ''33''\<rparr>,
      lastUpdated = ''t9''\<rparr>"

definition unavailable_then_draw :: "nat \<Rightarrow> api_reply" where
  "unavailable_then_draw n =
     (if n = 1 then Response False 503 None else Response True 200 (Some draw_result))"

definition always_unavailable :: "nat \<Rightarrow> api_reply" where
  "always_unavailable n = Response False 503 None"

definition one_row :: "nat \<Rightarrow> error + stock_record list" where
  "one_row n = Inr [stk ''X'' ''111'' ''t0'']"

definition legacy_file :: "lottery_record file_text" where
  "legacy_file = Json (JArray [lot ''A'' ''1'' ''t0'', lot ''B'' ''2'' ''t0''])"

definition wrapped_file :: "lottery_record file_text" where
  "wrapped_file = Json (JObject
     [(''lastUpdated'', JString ''t5''), (''recordCount'', JNumber 2),
      (''data'', JArray [lot ''A'' ''1'' ''t0'', lot ''B'' ''2'' ''t0''])])"

definition lottery_idle :: "lottery_record manager" where
  "lottery_idle = constructor None"

definition stock_idle :: "stock_record manager" where
  "stock_idle = constructor None"

definition lottery_running :: "lottery_record manager" where
  "lottery_running = (constructor None)\<lparr>isRunning := True\<rparr>"

definition stock_running :: "stock_record manager" where
  "stock_running = (constructor None)\<lparr>isRunning := True\<rparr>"

definition lottery_armed :: "lottery_record manager" where
  "lottery_armed =
     (constructor None)\<lparr>isRunning := True, timeoutId := Some 0, timers := [0], timerCount := 1\<rparr>"

definition stock_armed :: "stock_record manager" where
  "stock_armed =
     (constructor None)\<lparr>isRunning := True, timeoutId := Some 0, timers := [0], timerCount := 1\<rparr>"

section \<open>Properties of \<^verbatim>\<open>Map\<close> and of change detection\<close>

lemma Map_set_keys:
  "map fst (Map_set k v m) = (if k \<in> set (map fst m) then map fst m else map fst m @ [k])"
  by (induction m) auto

lemma map_of_Map_set: "map_of (Map_set k v m) = (map_of m)(k \<mapsto> v)"
  by (induction m) (auto simp: fun_eq_iff)

lemma Map_set_fresh: "k \<notin> fst ` set m \<Longrightarrow> Map_set k v m = m @ [(k, v)]"
  by (induction m) auto

lemma fold_Map_set_distinct:
  "distinct (map fst (m @ es)) \<Longrightarrow> fold (\<lambda>(k, v). Map_set k v) es m = m @ es"
proof (induction es arbitrary: m)
  case Nil
  then show ?case by simp
next
  case (Cons e es)
  obtain k v where e: "e = (k, v)" by (cases e)
  from Cons.prems have fresh: "k \<notin> fst ` set m" by (auto simp: e)
  from Cons.prems have "distinct (map fst ((m @ [(k, v)]) @ es))" by (simp add: e)
  from Cons.IH [OF this] show ?case by (simp add: e Map_set_fresh [OF fresh])
qed

lemma new_Map_distinct: "distinct (map fst es) \<Longrightarrow> new_Map es = es"
  using fold_Map_set_distinct [of "[]" es] by (simp add: new_Map_def)

lemma fold_Map_set_keys_distinct:
  "distinct (map fst m) \<Longrightarrow> distinct (map fst (fold (\<lambda>(k, v). Map_set k v) es m))"
  by (induction es arbitrary: m) (auto simp: Map_set_keys)

lemma new_Map_keys_distinct: "distinct (map fst (new_Map es))"
  by (simp add: new_Map_def fold_Map_set_keys_distinct)

lemma map_of_fold_Map_set:
  "map_of (fold (\<lambda>(k, v). Map_set k v) es m) = map_of m ++ map_of (rev es)"
  by (induction es arbitrary: m) (auto simp: map_of_Map_set fun_eq_iff map_add_def split: option.splits)

lemma map_of_new_Map: "map_of (new_Map es) = map_of (rev es)"
  by (simp add: new_Map_def map_of_fold_Map_set)

lemma new_Map_keys: "fst ` set (new_Map es) = fst ` set es"
proof -
  have "dom (map_of (new_Map es)) = dom (map_of (rev es))" by (simp add: map_of_new_Map)
  then show ?thesis by (simp add: dom_map_of_conv_image_fst)
qed

lemma new_Map_subset: "set (new_Map es) \<subseteq> set es"
proof
  fix p assume p: "p \<in> set (new_Map es)"
  obtain k v where kv: "p = (k, v)" by (cases p)
  with p have "map_of (new_Map es) k = Some v"
    using new_Map_keys_distinct [of es] by simp
  then have "map_of (rev es) k = Some v" by (simp add: map_of_new_Map)
  then have "(k, v) \<in> set (rev es)" by (rule map_of_SomeD)
  with kv show "p \<in> set es" by simp
qed

lemma fold_detect_new:
  "fold (detect_new changed om) nm acc =
     acc\<lparr>added := added acc @ map snd (filter (\<lambda>(k, n). map_of om k = None) nm),
         updated := updated acc @ concat (map (\<lambda>(k, n).
            case map_of om k of None \<Rightarrow> []
            | Some oldItem \<Rightarrow> if changed oldItem n then [\<lparr>key = k, old = oldItem, new = n\<rparr>] else []) nm)\<rparr>"
  by (induction nm arbitrary: acc) (auto simp: detect_new_def Map_get_def split: option.splits)

lemma fold_detect_removed:
  "fold (detect_removed nm) om acc =
     acc\<lparr>removed := removed acc @ map snd (filter (\<lambda>(k, oldItem). map_of nm k = None) om)\<rparr>"
  by (induction om arbitrary: acc) (auto simp: detect_removed_def Map_has_def)

lemma detectChanges_Maps:
  "detectChanges ident changed oldData newData =
     (let om = new_Map (map (\<lambda>item. (ident item, item)) oldData);
          nm = new_Map (map (\<lambda>item. (ident item, item)) newData)
      in \<lparr>added = map snd (filter (\<lambda>(k, n). map_of om k = None) nm),
          updated = concat (map (\<lambda>(k, n).
            case map_of om k of None \<Rightarrow> []
            | Some oldItem \<Rightarrow> if changed oldItem n then [\<lparr>key = k, old = oldItem, new = n\<rparr>] else []) nm),
          removed = map snd (filter (\<lambda>(k, oldItem). map_of nm k = None) om)\<rparr>)"
  by (simp add: detectChanges_def Let_def fold_detect_new fold_detect_removed no_changes_def)

lemma map_of_ident_None:
  "map_of (map (\<lambda>item. (ident item, item)) xs) k = None \<longleftrightarrow> k \<notin> ident ` set xs"
  by (induction xs) auto

lemma lookup_distinct:
  "distinct (map ident xs) \<Longrightarrow>
   (case map_of (map (\<lambda>item. (ident item, item)) xs) k of None \<Rightarrow> []
    | Some x \<Rightarrow> if P x then [f x] else []) =
   concat (map (\<lambda>x. if ident x = k \<and> P x then [f x] else []) xs)"
proof (induction xs)
  case Nil
  then show ?case by simp
next
  case (Cons x xs)
  show ?case
  proof (cases "ident x = k")
    case True
    with Cons.prems have "k \<notin> ident ` set xs" by auto
    then have "concat (map (\<lambda>x. if ident x = k \<and> P x then [f x] else []) xs) = []"
      by (induction xs) auto
    with True show ?thesis by simp
  next
    case False
    with Cons show ?thesis by simp
  qed
qed

lemma detectChanges_distinct:
  assumes "distinct (map ident oldData)" and "distinct (map ident newData)"
  shows "added (detectChanges ident changed oldData newData) =
           filter (\<lambda>n. ident n \<notin> ident ` set oldData) newData"
    and "removed (detectChanges ident changed oldData newData) =
           filter (\<lambda>oldItem. ident oldItem \<notin> ident ` set newData) oldData"
    and "updated (detectChanges ident changed oldData newData) =
           [\<lparr>key = ident n, old = oldItem, new = n\<rparr>. n \<leftarrow> newData, oldItem \<leftarrow> oldData,
              ident oldItem = ident n \<and> changed oldItem n]"
proof -
  have om: "new_Map (map (\<lambda>item. (ident item, item)) oldData) = map (\<lambda>item. (ident item, item)) oldData"
    using assms(1) by (intro new_Map_distinct) (simp add: comp_def)
  have nm: "new_Map (map (\<lambda>item. (ident item, item)) newData) = map (\<lambda>item. (ident item, item)) newData"
    using assms(2) by (intro new_Map_distinct) (simp add: comp_def)
  show "added (detectChanges ident changed oldData newData) =
           filter (\<lambda>n. ident n \<notin> ident ` set oldData) newData"
    by (simp add: detectChanges_Maps om nm filter_map comp_def map_of_ident_None)
  show "removed (detectChanges ident changed oldData newData) =
           filter (\<lambda>oldItem. ident oldItem \<notin> ident ` set newData) oldData"
    by (simp add: detectChanges_Maps om nm filter_map comp_def map_of_ident_None)
  show "updated (detectChanges ident changed oldData newData) =
           [\<lparr>key = ident n, old = oldItem, new = n\<rparr>. n \<leftarrow> newData, oldItem \<leftarrow> oldData,
              ident oldItem = ident n \<and> changed oldItem n]"
    by (simp add: detectChanges_Maps Let_def om nm comp_def
          lookup_distinct [OF assms(1), where f = "\<lambda>oldItem. \<lparr>key = ident n, old = oldItem, new = n\<rparr>"
            and P = "\<lambda>oldItem. changed oldItem n" for n])
qed


lemma detectChanges_sound:
  fixes ident :: "'r \<Rightarrow> 'k"
  shows "ident ` set (added (detectChanges ident changed oldData newData)) =
           ident ` set newData - ident ` set oldData"
    and "ident ` set (removed (detectChanges ident changed oldData newData)) =
           ident ` set oldData - ident ` set newData"
    and "set (added (detectChanges ident changed oldData newData)) \<subseteq> set newData"
    and "set (removed (detectChanges ident changed oldData newData)) \<subseteq> set oldData"
    and "\<forall>u \<in> set (updated (detectChanges ident changed oldData newData)).
           old u \<in> set oldData \<and> new u \<in> set newData \<and>
           ident (old u) = key u \<and> ident (new u) = key u \<and> changed (old u) (new u)"
proof -
  define om where "om = new_Map (map (\<lambda>item. (ident item, item)) oldData)"
  define nm where "nm = new_Map (map (\<lambda>item. (ident item, item)) newData)"
  have osub: "(k, x) \<in> set om \<Longrightarrow> x \<in> set oldData \<and> ident x = k" for k x
    using new_Map_subset [of "map (\<lambda>item. (ident item, item)) oldData"] by (auto simp: om_def)
  have nsub: "(k, x) \<in> set nm \<Longrightarrow> x \<in> set newData \<and> ident x = k" for k x
    using new_Map_subset [of "map (\<lambda>item. (ident item, item)) newData"] by (auto simp: nm_def)
  have okeys: "fst ` set om = ident ` set oldData"
    by (simp add: om_def new_Map_keys image_image)
  have nkeys: "fst ` set nm = ident ` set newData"
    by (simp add: nm_def new_Map_keys image_image)
  have onone: "map_of om k = None \<longleftrightarrow> k \<notin> ident ` set oldData" for k
    by (simp add: map_of_eq_None_iff okeys)
  have nnone: "map_of nm k = None \<longleftrightarrow> k \<notin> ident ` set newData" for k
    by (simp add: map_of_eq_None_iff nkeys)
  have a: "added (detectChanges ident changed oldData newData) =
      map snd (filter (\<lambda>(k, n). map_of om k = None) nm)"
    and r: "removed (detectChanges ident changed oldData newData) =
      map snd (filter (\<lambda>(k, oldItem). map_of nm k = None) om)"
    and u: "updated (detectChanges ident changed oldData newData) =
      concat (map (\<lambda>(k, n).
            case map_of om k of None \<Rightarrow> []
            | Some oldItem \<Rightarrow> if changed oldItem n then [\<lparr>key = k, old = oldItem, new = n\<rparr>] else []) nm)"
    by (simp_all add: detectChanges_Maps Let_def om_def nm_def)
  show "set (added (detectChanges ident changed oldData newData)) \<subseteq> set newData"
    using nsub by (auto simp: a)
  show "set (removed (detectChanges ident changed oldData newData)) \<subseteq> set oldData"
    using osub by (auto simp: r)
  show "ident ` set (added (detectChanges ident changed oldData newData)) =
           ident ` set newData - ident ` set oldData"
  proof (intro set_eqI iffI)
    fix k assume "k \<in> ident ` set (added (detectChanges ident changed oldData newData))"
    then obtain k' n where "(k', n) \<in> set nm" "map_of om k' = None" "k = ident n"
      by (auto simp: a)
    with nsub [of k' n] show "k \<in> ident ` set newData - ident ` set oldData"
      by (auto simp: onone)
  next
    fix k assume k: "k \<in> ident ` set newData - ident ` set oldData"
    then obtain n where n: "(k, n) \<in> set nm" using nkeys by force
    with nsub [of k n] have "ident n = k" by simp
    moreover from k have "map_of om k = None" by (simp add: onone)
    ultimately show "k \<in> ident ` set (added (detectChanges ident changed oldData newData))"
      using n by (force simp: a)
  qed
  show "ident ` set (removed (detectChanges ident changed oldData newData)) =
           ident ` set oldData - ident ` set newData"
  proof (intro set_eqI iffI)
    fix k assume "k \<in> ident ` set (removed (detectChanges ident changed oldData newData))"
    then obtain k' x where "(k', x) \<in> set om" "map_of nm k' = None" "k = ident x"
      by (auto simp: r)
    with osub [of k' x] show "k \<in> ident ` set oldData - ident ` set newData"
      by (auto simp: nnone)
  next
    fix k assume k: "k \<in> ident ` set oldData - ident ` set newData"
    then obtain x where x: "(k, x) \<in> set om" using okeys by force
    with osub [of k x] have "ident x = k" by simp
    moreover from k have "map_of nm k = None" by (simp add: nnone)
    ultimately show "k \<in> ident ` set (removed (detectChanges ident changed oldData newData))"
      using x by (force simp: r)
  qed
  show "\<forall>u \<in> set (updated (detectChanges ident changed oldData newData)).
           old u \<in> set oldData \<and> new u \<in> set newData \<and>
           ident (old u) = key u \<and> ident (new u) = key u \<and> changed (old u) (new u)"
  proof
    fix v assume "v \<in> set (updated (detectChanges ident changed oldData newData))"
    then obtain k n x where kn: "(k, n) \<in> set nm" and x: "map_of om k = Some x"
      and c: "changed x n" and v: "v = \<lparr>key = k, old = x, new = n\<rparr>"
      by (auto simp: u split: option.splits if_splits)
    from x have "(k, x) \<in> set om" by (rule map_of_SomeD)
    with osub [of k x] nsub [OF kn] c v
    show "old v \<in> set oldData \<and> new v \<in> set newData \<and>
           ident (old v) = key v \<and> ident (new v) = key v \<and> changed (old v) (new v)"
      by simp
  qed
qed

lemma lottery_changed_iff:
  "lottery_hasDataChanged oldItem n \<longleftrightarrow>
      (firstPrize (prizes oldItem) \<noteq> firstPrize (prizes n) \<or>
       three_front (prizes oldItem) \<noteq> three_front (prizes n) \<or>
       three_end (prizes oldItem) \<noteq> three_end (prizes n) \<or>
       two_end (prizes oldItem) \<noteq> two_end (prizes n))"
  by (auto simp: lottery_hasDataChanged_def arePrizesEqual_def)

lemma stock_changed_iff:
  "stock_hasDataChanged oldItem n \<longleftrightarrow>
      (countryCode oldItem \<noteq> countryCode n \<or>
       threeDigits oldItem \<noteq> threeDigits n \<or>
       twoDigits oldItem \<noteq> twoDigits n)"
  by (auto simp: stock_hasDataChanged_def)

text \<open>
  C1. For all record lists, the keys of \<open>added\<close> are exactly the keys of the new side
  that the old side lacks, the keys of \<open>removed\<close> exactly the keys of the old side
  that the new side lacks, both lists hold records of their side only, and every entry
  of \<open>updated\<close> carries a key together with a record of the old side and a record
  of the new side that have this key and differ in an allow-listed field. When the
  identity keys are unique on each side (a record set keyed by its identity field),
  \<open>added\<close> is exactly the new records whose key the old side lacks, \<open>removed\<close>
  exactly the old records whose key the new side lacks, and \<open>updated\<close> has exactly
  one entry for each key present on both sides whose two records differ in an
  allow-listed field; each in the order of the side it is taken from.
\<close>

theorem detectChanges_exact:
  "date ` set (added (lottery_detectChanges lo ln)) = date ` set ln - date ` set lo \<and>
   date ` set (removed (lottery_detectChanges lo ln)) = date ` set lo - date ` set ln \<and>
   set (added (lottery_detectChanges lo ln)) \<subseteq> set ln \<and>
   set (removed (lottery_detectChanges lo ln)) \<subseteq> set lo \<and>
   (\<forall>u \<in> set (updated (lottery_detectChanges lo ln)).
      old u \<in> set lo \<and> new u \<in> set ln \<and> date (old u) = key u \<and> date (new u) = key u \<and>
      (firstPrize (prizes (old u)) \<noteq> firstPrize (prizes (new u)) \<or>
       three_front (prizes (old u)) \<noteq> three_front (prizes (new u)) \<or>
       three_end (prizes (old u)) \<noteq> three_end (prizes (new u)) \<or>
       two_end (prizes (old u)) \<noteq> two_end (prizes (new u)))) \<and>
   (distinct (map date lo) \<and> distinct (map date ln) \<longrightarrow>
      added (lottery_detectChanges lo ln) = [n \<leftarrow> ln. date n \<notin> date ` set lo] \<and>
      removed (lottery_detectChanges lo ln) = [oldItem \<leftarrow> lo. date oldItem \<notin> date ` set ln] \<and>
      updated (lottery_detectChanges lo ln) =
        [\<lparr>key = date n, old = oldItem, new = n\<rparr>. n \<leftarrow> ln, oldItem \<leftarrow> lo,
           date oldItem = date n \<and>
           (firstPrize (prizes oldItem) \<noteq> firstPrize (prizes n) \<or>
            three_front (prizes oldItem) \<noteq> three_front (prizes n) \<or>
            three_end (prizes oldItem) \<noteq> three_end (prizes n) \<or>
            two_end (prizes oldItem) \<noteq> two_end (prizes n))]) \<and>
   stockName ` set (added (stock_detectChanges so sn)) = stockName ` set sn - stockName ` set so \<and>
   stockName ` set (removed (stock_detectChanges so sn)) = stockName ` set so - stockName ` set sn \<and>
   set (added (stock_detectChanges so sn)) \<subseteq> set sn \<and>
   set (removed (stock_detectChanges so sn)) \<subseteq> set so \<and>
   (\<forall>u \<in> set (updated (stock_detectChanges so sn)).
      old u \<in> set so \<and> new u \<in> set sn \<and> stockName (old u) = key u \<and> stockName (new u) = key u \<and>
      (countryCode (old u) \<noteq> countryCode (new u) \<or>
       threeDigits (old u) \<noteq> threeDigits (new u) \<or>
       twoDigits (old u) \<noteq> twoDigits (new u))) \<and>
   (distinct (map stockName so) \<and> distinct (map stockName sn) \<longrightarrow>
      added (stock_detectChanges so sn) = [n \<leftarrow> sn. stockName n \<notin> stockName ` set so] \<and>
      removed (stock_detectChanges so sn) = [oldItem \<leftarrow> so. stockName oldItem \<notin> stockName ` set sn] \<and>
      updated (stock_detectChanges so sn) =
        [\<lparr>key = stockName n, old = oldItem, new = n\<rparr>. n \<leftarrow> sn, oldItem \<leftarrow> so,
           stockName oldItem = stockName n \<and>
           (countryCode oldItem \<noteq> countryCode n \<or>
            threeDigits oldItem \<noteq> threeDigits n \<or>
            twoDigits oldItem \<noteq> twoDigits n)])"
proof -
  note ls = detectChanges_sound [where ident = date and changed = lottery_hasDataChanged
      and oldData = lo and newData = ln, folded lottery_detectChanges_def]
  note ss = detectChanges_sound [where ident = stockName and changed = stock_hasDataChanged
      and oldData = so and newData = sn, folded stock_detectChanges_def]
  have ld: "added (lottery_detectChanges lo ln) = [n \<leftarrow> ln. date n \<notin> date ` set lo] \<and>
      removed (lottery_detectChanges lo ln) = [oldItem \<leftarrow> lo. date oldItem \<notin> date ` set ln] \<and>
      updated (lottery_detectChanges lo ln) =
        [\<lparr>key = date n, old = oldItem, new = n\<rparr>. n \<leftarrow> ln, oldItem \<leftarrow> lo,
           date oldItem = date n \<and>
           (firstPrize (prizes oldItem) \<noteq> firstPrize (prizes n) \<or>
            three_front (prizes oldItem) \<noteq> three_front (prizes n) \<or>
            three_end (prizes oldItem) \<noteq> three_end (prizes n) \<or>
            two_end (prizes oldItem) \<noteq> two_end (prizes n))]"
    if "distinct (map date lo) \<and> distinct (map date ln)"
    unfolding lottery_detectChanges_def
    using detectChanges_distinct [of date lo ln lottery_hasDataChanged] that
    by (simp only: lottery_changed_iff)
  then have ld': "distinct (map date lo) \<and> distinct (map date ln) \<longrightarrow>
      added (lottery_detectChanges lo ln) = [n \<leftarrow> ln. date n \<notin> date ` set lo] \<and>
      removed (lottery_detectChanges lo ln) = [oldItem \<leftarrow> lo. date oldItem \<notin> date ` set ln] \<and>
      updated (lottery_detectChanges lo ln) =
        [\<lparr>key = date n, old = oldItem, new = n\<rparr>. n \<leftarrow> ln, oldItem \<leftarrow> lo,
           date oldItem = date n \<and>
           (firstPrize (prizes oldItem) \<noteq> firstPrize (prizes n) \<or>
            three_front (prizes oldItem) \<noteq> three_front (prizes n) \<or>
            three_end (prizes oldItem) \<noteq> three_end (prizes n) \<or>
            two_end (prizes oldItem) \<noteq> two_end (prizes n))]"
    by (rule impI)
  have sd: "added (stock_detectChanges so sn) = [n \<leftarrow> sn. stockName n \<notin> stockName ` set so] \<and>
      removed (stock_detectChanges so sn) = [oldItem \<leftarrow> so. stockName oldItem \<notin> stockName ` set sn] \<and>
      updated (stock_detectChanges so sn) =
        [\<lparr>key = stockName n, old = oldItem, new = n\<rparr>. n \<leftarrow> sn, oldItem \<leftarrow> so,
           stockName oldItem = stockName n \<and>
           (countryCode oldItem \<noteq> countryCode n \<or>
            threeDigits oldItem \<noteq> threeDigits n \<or>
            twoDigits oldItem \<noteq> twoDigits n)]"
    if "distinct (map stockName so) \<and> distinct (map stockName sn)"
    unfolding stock_detectChanges_def
    using detectChanges_distinct [of stockName so sn stock_hasDataChanged] that
    by (simp only: stock_changed_iff)
  then have sd': "distinct (map stockName so) \<and> distinct (map stockName sn) \<longrightarrow>
      added (stock_detectChanges so sn) = [n \<leftarrow> sn. stockName n \<notin> stockName ` set so] \<and>
      removed (stock_detectChanges so sn) = [oldItem \<leftarrow> so. stockName oldItem \<notin> stockName ` set sn] \<and>
      updated (stock_detectChanges so sn) =
        [\<lparr>key = stockName n, old = oldItem, new = n\<rparr>. n \<leftarrow> sn, oldItem \<leftarrow> so,
           stockName oldItem = stockName n \<and>
           (countryCode oldItem \<noteq> countryCode n \<or>
            threeDigits oldItem \<noteq> threeDigits n \<or>
            twoDigits oldItem \<noteq> twoDigits n)]"
    by (rule impI)
  from ls(1-4) ls(5) [unfolded lottery_changed_iff] ld' ss(1-4) ss(5) [unfolded stock_changed_iff] sd'
  show ?thesis by - (intro conjI; assumption)
qed

theorem detectChanges_exact_witness:
  "distinct (map date [lot ''A'' ''1'' ''t0'', lot ''C'' ''3'' ''t0'']) \<and>
   distinct (map date [lot ''A'' ''2'' ''t1'', lot ''B'' ''5'' ''t1'']) \<and>
   distinct (map stockName [stk ''X'' ''111'' ''t0'', stk ''Z'' ''333'' ''t0'']) \<and>
   distinct (map stockName [stk ''X'' ''112'' ''t1'', stk ''Y'' ''222'' ''t1'']) \<and>
   lottery_detectChanges [lot ''A'' ''1'' ''t0'', lot ''C'' ''3'' ''t0''] [lot ''A'' ''2'' ''t1'', lot ''B'' ''5'' ''t1''] =
     \<lparr>added = [lot ''B'' ''5'' ''t1''],
      updated = [\<lparr>key = ''A'', old = lot ''A'' ''1'' ''t0'', new = lot ''A'' ''2'' ''t1''\<rparr>],
      removed = [lot ''C'' ''3'' ''t0'']\<rparr> \<and>
   stock_detectChanges [stk ''X'' ''111'' ''t0'', stk ''Z'' ''333'' ''t0''] [stk ''X'' ''112'' ''t1'', stk ''Y'' ''222'' ''t1''] =
     \<lparr>added = [stk ''Y'' ''222'' ''t1''],
      updated = [\<lparr>key = ''X'', old = stk ''X'' ''111'' ''t0'', new = stk ''X'' ''112'' ''t1''\<rparr>],
      removed = [stk ''Z'' ''333'' ''t0'']\<rparr>"
proof -
  have d: "distinct (map date [lot ''A'' ''1'' ''t0'', lot ''C'' ''3'' ''t0''])"
    "distinct (map date [lot ''A'' ''2'' ''t1'', lot ''B'' ''5'' ''t1''])"
    "distinct (map stockName [stk ''X'' ''111'' ''t0'', stk ''Z'' ''333'' ''t0''])"
    "distinct (map stockName [stk ''X'' ''112'' ''t1'', stk ''Y'' ''222'' ''t1''])"
    by (simp_all add: lot_def stk_def)
  note t = detectChanges_exact [of "[lot ''A'' ''1'' ''t0'', lot ''C'' ''3'' ''t0'']"
      "[lot ''A'' ''2'' ''t1'', lot ''B'' ''5'' ''t1'']"
      "[stk ''X'' ''111'' ''t0'', stk ''Z'' ''333'' ''t0'']"
      "[stk ''X'' ''112'' ''t1'', stk ''Y'' ''222'' ''t1'']"]
  from t d have l: "added (lottery_detectChanges [lot ''A'' ''1'' ''t0'', lot ''C'' ''3'' ''t0''] [lot ''A'' ''2'' ''t1'', lot ''B'' ''5'' ''t1'']) = [lot ''B'' ''5'' ''t1'']"
    "removed (lottery_detectChanges [lot ''A'' ''1'' ''t0'', lot ''C'' ''3'' ''t0''] [lot ''A'' ''2'' ''t1'', lot ''B'' ''5'' ''t1'']) = [lot ''C'' ''3'' ''t0'']"
    "updated (lottery_detectChanges [lot ''A'' ''1'' ''t0'', lot ''C'' ''3'' ''t0''] [lot ''A'' ''2'' ''t1'', lot ''B'' ''5'' ''t1'']) =
      [\<lparr>key = ''A'', old = lot ''A'' ''1'' ''t0'', new = lot ''A'' ''2'' ''t1''\<rparr>]"
    by (simp_all add: lot_def)
  from t d have s: "added (stock_detectChanges [stk ''X'' ''111'' ''t0'', stk ''Z'' ''333'' ''t0''] [stk ''X'' ''112'' ''t1'', stk ''Y'' ''222'' ''t1'']) = [stk ''Y'' ''222'' ''t1'']"
    "removed (stock_detectChanges [stk ''X'' ''111'' ''t0'', stk ''Z'' ''333'' ''t0''] [stk ''X'' ''112'' ''t1'', stk ''Y'' ''222'' ''t1'']) = [stk ''Z'' ''333'' ''t0'']"
    "updated (stock_detectChanges [stk ''X'' ''111'' ''t0'', stk ''Z'' ''333'' ''t0''] [stk ''X'' ''112'' ''t1'', stk ''Y'' ''222'' ''t1'']) =
      [\<lparr>key = ''X'', old = stk ''X'' ''111'' ''t0'', new = stk ''X'' ''112'' ''t1''\<rparr>]"
    by (simp_all add: stk_def)
  from d l s show ?thesis by (simp add: change_set.equality)
qed

section \<open>Change detection ignores \<open>lastUpdated\<close>\<close>

lemma map_of_distinct_mem:
  "distinct (map fst m) \<Longrightarrow> (k, v) \<in> set m \<Longrightarrow> map_of m k = Some v"
  by simp

lemma detectChanges_agree:
  assumes "\<And>k. rel_option (\<lambda>oldItem n. \<not> changed oldItem n)
             (map_of (new_Map (map (\<lambda>item. (ident item, item)) oldData)) k)
             (map_of (new_Map (map (\<lambda>item. (ident item, item)) newData)) k)"
  shows "detectChanges ident changed oldData newData = no_changes"
proof -
  define om where "om = new_Map (map (\<lambda>item. (ident item, item)) oldData)"
  define nm where "nm = new_Map (map (\<lambda>item. (ident item, item)) newData)"
  have rel: "rel_option (\<lambda>oldItem n. \<not> changed oldItem n) (map_of om k) (map_of nm k)" for k
    using assms by (simp add: om_def nm_def)
  have dn: "distinct (map fst nm)" and do: "distinct (map fst om)"
    by (simp_all add: nm_def om_def new_Map_keys_distinct)
  have a: "filter (\<lambda>(k, n). map_of om k = None) nm = []"
  proof -
    have "map_of om k \<noteq> None" if "(k, n) \<in> set nm" for k n
    proof -
      have "map_of nm k = Some n" using dn that by simp
      with rel [of k] show ?thesis by (cases "map_of om k") auto
    qed
    then show ?thesis by (auto simp: filter_empty_conv)
  qed
  have r: "filter (\<lambda>(k, oldItem). map_of nm k = None) om = []"
  proof -
    have "map_of nm k \<noteq> None" if "(k, x) \<in> set om" for k x
    proof -
      have "map_of om k = Some x" using do that by simp
      with rel [of k] show ?thesis by (cases "map_of nm k") auto
    qed
    then show ?thesis by (auto simp: filter_empty_conv)
  qed
  have u: "concat (map (\<lambda>(k, n).
            case map_of om k of None \<Rightarrow> []
            | Some oldItem \<Rightarrow> if changed oldItem n then [\<lparr>key = k, old = oldItem, new = n\<rparr>] else []) nm) = []"
  proof -
    have "(case map_of om k of None \<Rightarrow> []
            | Some oldItem \<Rightarrow> if changed oldItem n then [\<lparr>key = k, old = oldItem, new = n\<rparr>] else []) = []"
      if "(k, n) \<in> set nm" for k n
    proof -
      have "map_of nm k = Some n" using dn that by simp
      with rel [of k] show ?thesis by (cases "map_of om k") auto
    qed
    then show ?thesis by auto
  qed
  show ?thesis
    using a r u by (simp add: detectChanges_Maps Let_def no_changes_def flip: om_def nm_def)
qed

lemma detectChanges_same:
  assumes "\<And>x. \<not> changed x x"
  shows "detectChanges ident changed xs xs = no_changes"
proof (rule detectChanges_agree)
  fix k
  show "rel_option (\<lambda>oldItem n. \<not> changed oldItem n)
          (map_of (new_Map (map (\<lambda>item. (ident item, item)) xs)) k)
          (map_of (new_Map (map (\<lambda>item. (ident item, item)) xs)) k)"
    using assms by (cases "map_of (new_Map (map (\<lambda>item. (ident item, item)) xs)) k") auto
qed

lemma map_of_keyed_Some:
  "map_of (map (\<lambda>item. (ident item, item)) xs) k = Some x \<Longrightarrow> x \<in> set xs \<and> ident x = k"
  by (induction xs) (auto split: if_splits)

lemma map_of_keyed_rev_Some:
  "map_of (rev (map (\<lambda>item. (ident item, item)) xs)) k = Some x \<Longrightarrow> x \<in> set xs \<and> ident x = k"
  using map_of_keyed_Some [of ident "rev xs" k x] by (simp add: rev_map)

lemma map_of_keyed_rev_None:
  "map_of (rev (map (\<lambda>item. (ident item, item)) xs)) k = None \<longleftrightarrow> k \<notin> ident ` set xs"
  using map_of_ident_None [of ident "rev xs" k] by (simp add: rev_map)

lemma detectChanges_same_content:
  assumes keys: "ident ` set oldData = ident ` set newData"
    and same: "\<And>oldItem n. oldItem \<in> set oldData \<Longrightarrow> n \<in> set newData \<Longrightarrow> ident oldItem = ident n
                 \<Longrightarrow> \<not> changed oldItem n"
  shows "detectChanges ident changed oldData newData = no_changes"
proof (rule detectChanges_agree)
  fix k
  let ?o = "map_of (rev (map (\<lambda>item. (ident item, item)) oldData)) k"
  let ?n = "map_of (rev (map (\<lambda>item. (ident item, item)) newData)) k"
  have "rel_option (\<lambda>oldItem n. \<not> changed oldItem n) ?o ?n"
  proof (cases ?o)
    case None
    then have "k \<notin> ident ` set newData" using keys by (simp add: map_of_keyed_rev_None)
    then have "?n = None" by (simp add: map_of_keyed_rev_None)
    with None show ?thesis by simp
  next
    case (Some x)
    then have x: "x \<in> set oldData" "ident x = k" using map_of_keyed_rev_Some by fastforce+
    then have "k \<in> ident ` set newData" using keys by auto
    then obtain y where y: "?n = Some y" using map_of_keyed_rev_None [of ident newData k] by auto
    then have "y \<in> set newData" "ident y = k" using map_of_keyed_rev_Some by fastforce+
    with x same have "\<not> changed x y" by simp
    with Some y show ?thesis by simp
  qed
  then show "rel_option (\<lambda>oldItem n. \<not> changed oldItem n)
          (map_of (new_Map (map (\<lambda>item. (ident item, item)) oldData)) k)
          (map_of (new_Map (map (\<lambda>item. (ident item, item)) newData)) k)"
    by (simp add: map_of_new_Map)
qed

lemma map_of_rel_option:
  "list_all2 (\<lambda>x y. ident x = ident y \<and> R x y) xs ys \<Longrightarrow>
   rel_option R (map_of (map (\<lambda>item. (ident item, item)) xs) k)
                (map_of (map (\<lambda>item. (ident item, item)) ys) k)"
  by (induction xs ys rule: list_all2_induct) auto

lemma detectChanges_same_sequence:
  assumes "list_all2 (\<lambda>oldItem n. ident oldItem = ident n \<and> \<not> changed oldItem n) oldData newData"
  shows "detectChanges ident changed oldData newData = no_changes"
proof (rule detectChanges_agree)
  fix k
  from assms have "list_all2 (\<lambda>oldItem n. ident oldItem = ident n \<and> \<not> changed oldItem n)
      (rev oldData) (rev newData)" by simp
  from map_of_rel_option [OF this, of k]
  show "rel_option (\<lambda>oldItem n. \<not> changed oldItem n)
          (map_of (new_Map (map (\<lambda>item. (ident item, item)) oldData)) k)
          (map_of (new_Map (map (\<lambda>item. (ident item, item)) newData)) k)"
    by (simp add: map_of_new_Map rev_map)
qed


lemma lottery_unchanged_iff:
  "\<not> lottery_hasDataChanged oldItem n \<longleftrightarrow>
     firstPrize (prizes oldItem) = firstPrize (prizes n) \<and>
     three_front (prizes oldItem) = three_front (prizes n) \<and>
     three_end (prizes oldItem) = three_end (prizes n) \<and>
     two_end (prizes oldItem) = two_end (prizes n)"
  by (auto simp: lottery_hasDataChanged_def arePrizesEqual_def)

lemma stock_unchanged_iff:
  "\<not> stock_hasDataChanged oldItem n \<longleftrightarrow>
     countryCode oldItem = countryCode n \<and>
     threeDigits oldItem = threeDigits n \<and>
     twoDigits oldItem = twoDigits n"
  by (auto simp: stock_hasDataChanged_def)

text \<open>
  C3. \<^verbatim>\<open>detectChanges\<close> of a record list against itself reports nothing, and so does
  \<^verbatim>\<open>detectChanges\<close> of two record lists that agree on the identity keys and on every
  allow-listed field, whatever their \<open>lastUpdated\<close> fields are: both when they agree
  position by position and when they agree as sets of keyed records.
\<close>

theorem detectChanges_ignores_lastUpdated:
  "lottery_detectChanges lx lx = \<lparr>added = [], updated = [], removed = []\<rparr> \<and>
   stock_detectChanges sx sx = \<lparr>added = [], updated = [], removed = []\<rparr> \<and>
   (list_all2 (\<lambda>oldItem n. date oldItem = date n \<and>
        firstPrize (prizes oldItem) = firstPrize (prizes n) \<and>
        three_front (prizes oldItem) = three_front (prizes n) \<and>
        three_end (prizes oldItem) = three_end (prizes n) \<and>
        two_end (prizes oldItem) = two_end (prizes n)) lo ln
      \<longrightarrow> lottery_detectChanges lo ln = \<lparr>added = [], updated = [], removed = []\<rparr>) \<and>
   (list_all2 (\<lambda>oldItem n. stockName oldItem = stockName n \<and>
        countryCode oldItem = countryCode n \<and>
        threeDigits oldItem = threeDigits n \<and>
        twoDigits oldItem = twoDigits n) so sn
      \<longrightarrow> stock_detectChanges so sn = \<lparr>added = [], updated = [], removed = []\<rparr>) \<and>
   (date ` set lo' = date ` set ln' \<and>
    (\<forall>oldItem \<in> set lo'. \<forall>n \<in> set ln'. date oldItem = date n \<longrightarrow>
        firstPrize (prizes oldItem) = firstPrize (prizes n) \<and>
        three_front (prizes oldItem) = three_front (prizes n) \<and>
        three_end (prizes oldItem) = three_end (prizes n) \<and>
        two_end (prizes oldItem) = two_end (prizes n))
      \<longrightarrow> lottery_detectChanges lo' ln' = \<lparr>added = [], updated = [], removed = []\<rparr>) \<and>
   (stockName ` set so' = stockName ` set sn' \<and>
    (\<forall>oldItem \<in> set so'. \<forall>n \<in> set sn'. stockName oldItem = stockName n \<longrightarrow>
        countryCode oldItem = countryCode n \<and>
        threeDigits oldItem = threeDigits n \<and>
        twoDigits oldItem = twoDigits n)
      \<longrightarrow> stock_detectChanges so' sn' = \<lparr>added = [], updated = [], removed = []\<rparr>)"
proof -
  have l1: "lottery_detectChanges lx lx = no_changes"
    unfolding lottery_detectChanges_def
    by (rule detectChanges_same) (simp add: lottery_unchanged_iff)
  have s1: "stock_detectChanges sx sx = no_changes"
    unfolding stock_detectChanges_def
    by (rule detectChanges_same) (simp add: stock_unchanged_iff)
  have l2: "lottery_detectChanges lo ln = no_changes"
    if "list_all2 (\<lambda>oldItem n. date oldItem = date n \<and>
        firstPrize (prizes oldItem) = firstPrize (prizes n) \<and>
        three_front (prizes oldItem) = three_front (prizes n) \<and>
        three_end (prizes oldItem) = three_end (prizes n) \<and>
        two_end (prizes oldItem) = two_end (prizes n)) lo ln"
    unfolding lottery_detectChanges_def
    by (rule detectChanges_same_sequence) (use that in \<open>simp add: lottery_unchanged_iff\<close>)
  have s2: "stock_detectChanges so sn = no_changes"
    if "list_all2 (\<lambda>oldItem n. stockName oldItem = stockName n \<and>
        countryCode oldItem = countryCode n \<and>
        threeDigits oldItem = threeDigits n \<and>
        twoDigits oldItem = twoDigits n) so sn"
    unfolding stock_detectChanges_def
    by (rule detectChanges_same_sequence) (use that in \<open>simp add: stock_unchanged_iff\<close>)
  have l3: "lottery_detectChanges lo' ln' = no_changes"
    if "date ` set lo' = date ` set ln'"
      and "\<forall>oldItem \<in> set lo'. \<forall>n \<in> set ln'. date oldItem = date n \<longrightarrow>
        firstPrize (prizes oldItem) = firstPrize (prizes n) \<and>
        three_front (prizes oldItem) = three_front (prizes n) \<and>
        three_end (prizes oldItem) = three_end (prizes n) \<and>
        two_end (prizes oldItem) = two_end (prizes n)"
    unfolding lottery_detectChanges_def
    by (rule detectChanges_same_content) (use that in \<open>simp_all add: lottery_unchanged_iff\<close>)
  have s3: "stock_detectChanges so' sn' = no_changes"
    if "stockName ` set so' = stockName ` set sn'"
      and "\<forall>oldItem \<in> set so'. \<forall>n \<in> set sn'. stockName oldItem = stockName n \<longrightarrow>
        countryCode oldItem = countryCode n \<and>
        threeDigits oldItem = threeDigits n \<and>
        twoDigits oldItem = twoDigits n"
    unfolding stock_detectChanges_def
    by (rule detectChanges_same_content) (use that in \<open>simp_all add: stock_unchanged_iff\<close>)
  from l1 s1 l2 s2 l3 s3 show ?thesis
    unfolding no_changes_def by blast
qed

theorem detectChanges_ignores_lastUpdated_witness:
  "list_all2 (\<lambda>oldItem n. date oldItem = date n \<and>
        firstPrize (prizes oldItem) = firstPrize (prizes n) \<and>
        three_front (prizes oldItem) = three_front (prizes n) \<and>
        three_end (prizes oldItem) = three_end (prizes n) \<and>
        two_end (prizes oldItem) = two_end (prizes n))
      [lot ''A'' ''1'' ''t0'', lot ''B'' ''2'' ''t0''] [lot ''A'' ''1'' ''t1'', lot ''B'' ''2'' ''t2''] \<and>
   lottery_detectChanges [lot ''A'' ''1'' ''t0'', lot ''B'' ''2'' ''t0'']
      [lot ''A'' ''1'' ''t1'', lot ''B'' ''2'' ''t2''] = \<lparr>added = [], updated = [], removed = []\<rparr> \<and>
   list_all2 (\<lambda>oldItem n. stockName oldItem = stockName n \<and>
        countryCode oldItem = countryCode n \<and>
        threeDigits oldItem = threeDigits n \<and>
        twoDigits oldItem = twoDigits n)
      [stk ''X'' ''111'' ''t0''] [stk ''X'' ''111'' ''t1''] \<and>
   stock_detectChanges [stk ''X'' ''111'' ''t0''] [stk ''X'' ''111'' ''t1''] =
      \<lparr>added = [], updated = [], removed = []\<rparr> \<and>
   date ` set [lot ''A'' ''1'' ''t0'', lot ''B'' ''2'' ''t0''] =
     date ` set [lot ''B'' ''2'' ''t1'', lot ''A'' ''1'' ''t1''] \<and>
   lottery_detectChanges [lot ''A'' ''1'' ''t0'', lot ''B'' ''2'' ''t0'']
      [lot ''B'' ''2'' ''t1'', lot ''A'' ''1'' ''t1''] = \<lparr>added = [], updated = [], removed = []\<rparr> \<and>
   stockName ` set [stk ''X'' ''111'' ''t0'', stk ''Y'' ''222'' ''t0''] =
     stockName ` set [stk ''Y'' ''222'' ''t1'', stk ''X'' ''111'' ''t1''] \<and>
   stock_detectChanges [stk ''X'' ''111'' ''t0'', stk ''Y'' ''222'' ''t0'']
      [stk ''Y'' ''222'' ''t1'', stk ''X'' ''111'' ''t1''] = \<lparr>added = [], updated = [], removed = []\<rparr>"
  using detectChanges_ignores_lastUpdated
    [of "[]" "[]"
      "[lot ''A'' ''1'' ''t0'', lot ''B'' ''2'' ''t0'']" "[lot ''A'' ''1'' ''t1'', lot ''B'' ''2'' ''t2'']"
      "[stk ''X'' ''111'' ''t0'']" "[stk ''X'' ''111'' ''t1'']"
      "[lot ''A'' ''1'' ''t0'', lot ''B'' ''2'' ''t0'']" "[lot ''B'' ''2'' ''t1'', lot ''A'' ''1'' ''t1'']"
      "[stk ''X'' ''111'' ''t0'', stk ''Y'' ''222'' ''t0'']" "[stk ''Y'' ''222'' ''t1'', stk ''X'' ''111'' ''t1'']"]
  by (simp add: lot_def stk_def insert_commute)

section \<open>Properties of the retry wrappers\<close>

lemma emit_fields [simp]:
  "currentData (emit ev s) = currentData s"
  "isRunning (emit ev s) = isRunning s"
  "timeoutId (emit ev s) = timeoutId s"
  "dataFile (emit ev s) = dataFile s"
  "timers (emit ev s) = timers s"
  "timerCount (emit ev s) = timerCount s"
  "events (emit ev s) = events s @ [ev]"
  by (simp_all add: emit_def)

lemma log_fields [simp]:
  "currentData (log m s) = currentData s"
  "isRunning (log m s) = isRunning s"
  "timeoutId (log m s) = timeoutId s"
  "dataFile (log m s) = dataFile s"
  "timers (log m s) = timers s"
  "timerCount (log m s) = timerCount s"
  "events (log m s) = events s @ [Log m]"
  by (simp_all add: log_def)

lemma emit_as_update: "emit ev s = s\<lparr>events := events s @ [ev]\<rparr>"
  by (simp add: emit_def)

lemma log_as_update: "log m s = s\<lparr>events := events s @ [Log m]\<rparr>"
  by (simp add: log_def emit_def)

lemma lottery_all_rejected:
  assumes "\<And>n. replies n = Rejects (errs n)"
  shows "lottery_extractWithRetry e replies s =
     (Inl (errs 3),
      s\<lparr>events := events s @
         [Log (ExtractionAttempt 1), Log FetchingLatest, FetcherCalled,
          Log (AttemptFailed 1 (message (errs 1))), Sleep 5000,
          Log (ExtractionAttempt 2), Log FetchingLatest, FetcherCalled,
          Log (AttemptFailed 2 (message (errs 2))), Sleep 5000,
          Log (ExtractionAttempt 3), Log FetchingLatest, FetcherCalled,
          Log (AttemptFailed 3 (message (errs 3)))]\<rparr>)"
  by (simp add: lottery_extractWithRetry_def lottery_retry_loop.simps [of e replies]
      fetchLottoData_def assms maxRetries_def retryDelay_def log_as_update emit_as_update
      numeral_2_eq_2 numeral_3_eq_3)

lemma stock_all_thrown:
  assumes "\<And>n. pages n = Inl (errs n)"
  shows "stock_extractWithRetry pages s =
     (Inl (errs 3),
      s\<lparr>events := events s @
         [Log (ExtractionAttempt 1), FetcherCalled,
          Log (AttemptFailed 1 (message (errs 1))), Sleep 5000,
          Log (ExtractionAttempt 2), FetcherCalled,
          Log (AttemptFailed 2 (message (errs 2))), Sleep 5000,
          Log (ExtractionAttempt 3), FetcherCalled,
          Log (AttemptFailed 3 (message (errs 3)))]\<rparr>)"
  by (simp add: stock_extractWithRetry_def stock_retry_loop.simps [of pages]
      assms maxRetries_def retryDelay_def log_as_update emit_as_update
      numeral_2_eq_2 numeral_3_eq_3)

lemma env0_fields [simp]:
  "now env0 = ''t9''" "readError env0 = None" "writeError env0 = None"
  by (simp_all add: env0_def)

lemma fetchLottoData_raises:
  "fst (fetchLottoData e reply s) = Inl err \<longleftrightarrow> reply = Rejects err"
  by (cases reply) (auto simp: fetchLottoData_def Let_def split: option.splits)

lemma events_since_update [simp]:
  "events_since s (s\<lparr>events := events s @ evs\<rparr>) = evs"
  by (simp add: events_since_def)

text \<open>
  C6. When every invocation of the fetcher raises, \<^verbatim>\<open>extractWithRetry\<close> raises the
  error of attempt \<open>maxRetries\<close>, after invoking the fetcher exactly \<open>maxRetries\<close>
  (3) times with a wait of \<open>retryDelay\<close> after the first and after the second failure
  and none after the third; nothing but the trace changes.
\<close>

theorem extractWithRetry_always_failing:
  assumes "\<And>n s'. fst (fetchLottoData e (replies n) s') = Inl (lerrs n)"
    and "\<And>n. pages n = Inl (serrs n)"
  shows "lottery_extractWithRetry e replies ls =
           (Inl (lerrs maxRetries),
            ls\<lparr>events := events ls @
              [Log (ExtractionAttempt 1), Log FetchingLatest, FetcherCalled,
               Log (AttemptFailed 1 (message (lerrs 1))), Sleep retryDelay,
               Log (ExtractionAttempt 2), Log FetchingLatest, FetcherCalled,
               Log (AttemptFailed 2 (message (lerrs 2))), Sleep retryDelay,
               Log (ExtractionAttempt 3), Log FetchingLatest, FetcherCalled,
               Log (AttemptFailed 3 (message (lerrs 3)))]\<rparr>) \<and>
         count_list (events_since ls (snd (lottery_extractWithRetry e replies ls))) FetcherCalled
           = maxRetries \<and>
         stock_extractWithRetry pages ss =
           (Inl (serrs maxRetries),
            ss\<lparr>events := events ss @
              [Log (ExtractionAttempt 1), FetcherCalled,
               Log (AttemptFailed 1 (message (serrs 1))), Sleep retryDelay,
               Log (ExtractionAttempt 2), FetcherCalled,
               Log (AttemptFailed 2 (message (serrs 2))), Sleep retryDelay,
               Log (ExtractionAttempt 3), FetcherCalled,
               Log (AttemptFailed 3 (message (serrs 3)))]\<rparr>) \<and>
         count_list (events_since ss (snd (stock_extractWithRetry pages ss))) FetcherCalled
           = maxRetries"
proof -
  have r: "replies n = Rejects (lerrs n)" for n
    using assms(1) [of n ls] by (simp add: fetchLottoData_raises)
  show ?thesis
    by (simp add: lottery_all_rejected [of replies lerrs, OF r]
        stock_all_thrown [of pages serrs, OF assms(2)] maxRetries_def retryDelay_def)
qed

theorem extractWithRetry_always_failing_witness:
  "(\<forall>n s'. fst (fetchLottoData env0 (always_rejects n) s') = Inl network_down) \<and>
   (\<forall>n. always_throws n = Inl network_down) \<and>
   fst (lottery_extractWithRetry env0 always_rejects (constructor None)) = Inl network_down \<and>
   count_list (events_since (constructor None)
      (snd (lottery_extractWithRetry env0 always_rejects (constructor None)))) FetcherCalled = 3 \<and>
   fst (stock_extractWithRetry always_throws (constructor None)) = Inl network_down \<and>
   count_list (events_since (constructor None)
      (snd (stock_extractWithRetry always_throws (constructor None)))) FetcherCalled = 3"
proof -
  have a: "\<And>n s'. fst (fetchLottoData env0 (always_rejects n) s') = Inl network_down"
    by (simp add: fetchLottoData_raises always_rejects_def)
  have b: "\<And>n. always_throws n = Inl network_down"
    by (simp add: always_throws_def)
  note c = extractWithRetry_always_failing [where e = env0 and replies = always_rejects
      and lerrs = "\<lambda>n. network_down" and pages = always_throws and serrs = "\<lambda>n. network_down"
      and ls = "constructor None" and ss = "constructor None", OF a b]
  have "fst (lottery_extractWithRetry env0 always_rejects (constructor None)) = Inl network_down"
    and "fst (stock_extractWithRetry always_throws (constructor None)) = Inl network_down"
    and "count_list (events_since (constructor None)
      (snd (lottery_extractWithRetry env0 always_rejects (constructor None)))) FetcherCalled = 3"
    and "count_list (events_since (constructor None)
      (snd (stock_extractWithRetry always_throws (constructor None)))) FetcherCalled = 3"
    using c by (simp_all add: maxRetries_def)
  with a b show ?thesis by blast
qed

lemma fetchLottoData_effect:
  "\<exists>ms. snd (fetchLottoData e reply s) =
     s\<lparr>events := events s @ Log FetchingLatest # FetcherCalled # map Log ms\<rparr>"
proof -
  have *: "\<exists>ms. s\<lparr>events := events s @ [Log FetchingLatest, FetcherCalled, Log m]\<rparr> =
          s\<lparr>events := events s @ Log FetchingLatest # FetcherCalled # map Log ms\<rparr>" for m
    by (rule exI [of _ "[m]"]) simp
  have **: "\<exists>ms. s\<lparr>events := events s @ [Log FetchingLatest, FetcherCalled]\<rparr> =
          s\<lparr>events := events s @ Log FetchingLatest # FetcherCalled # map Log ms\<rparr>"
    by (rule exI [of _ "[]"]) simp
  show ?thesis
    by (cases reply)
      (auto simp: fetchLottoData_def Let_def log_as_update emit_as_update * ** split: option.splits)
qed

lemma fetchLottoData_result_indep:
  "fst (fetchLottoData e reply s) = fst (fetchLottoData e reply s')"
  by (cases reply) (auto simp: fetchLottoData_def Let_def split: option.splits)

lemma lottery_retry_loop_null_step:
  assumes "attempt \<le> maxRetries"
    and "fetchLottoData e (replies attempt) (log (ExtractionAttempt attempt) s) = (Inr None, s1)"
  shows "lottery_retry_loop e replies attempt s = lottery_retry_loop e replies (attempt + 1) s1"
  using assms by (subst lottery_retry_loop.simps) simp

lemma count_list_map_Log [simp]:
  "count_list (map Log ms) FetcherCalled = 0" "Sleep d \<notin> set (map Log ms)"
  "WriteFile \<notin> set (map Log ms)"
  by (induction ms) auto

lemma lottery_retry_loop_all_null:
  assumes "\<And>n s'. fst (fetchLottoData e (replies n) s') = Inr None"
  shows "\<exists>evs. lottery_retry_loop e replies attempt s = (Inr None, s\<lparr>events := events s @ evs\<rparr>) \<and>
           count_list evs FetcherCalled = maxRetries + 1 - attempt \<and>
           (\<forall>d. Sleep d \<notin> set evs)"
  using assms
proof (induction e replies attempt s rule: lottery_retry_loop.induct)
  case (1 e replies attempt s)
  show ?case
  proof (cases "attempt \<le> maxRetries")
    case False
    then have "lottery_retry_loop e replies attempt s =
        (Inr None, s\<lparr>events := events s @ [Log AllAttemptsFailed]\<rparr>)"
      by (subst lottery_retry_loop.simps) (simp add: log_as_update)
    moreover from False have "count_list [Log AllAttemptsFailed] FetcherCalled = maxRetries + 1 - attempt"
      by simp
    ultimately show ?thesis by (intro exI [of _ "[Log AllAttemptsFailed]"]) simp
  next
    case True
    let ?s0 = "log (ExtractionAttempt attempt) s"
    obtain s1 where f: "fetchLottoData e (replies attempt) ?s0 = (Inr None, s1)"
      using "1.prems" [of attempt ?s0] by (cases "fetchLottoData e (replies attempt) ?s0") simp
    obtain ms where s1: "s1 = ?s0\<lparr>events := events ?s0 @ Log FetchingLatest # FetcherCalled # map Log ms\<rparr>"
      using fetchLottoData_effect [of e "replies attempt" ?s0] f by auto
    from "1.IH"(2) [OF True f [symmetric] refl refl "1.prems"]
    obtain evs where loop: "lottery_retry_loop e replies (attempt + 1) s1 =
          (Inr None, s1\<lparr>events := events s1 @ evs\<rparr>)"
      and cnt: "count_list evs FetcherCalled = maxRetries + 1 - (attempt + 1)"
      and nosleep: "\<forall>d. Sleep d \<notin> set evs"
      by blast
    let ?evs = "Log (ExtractionAttempt attempt) # Log FetchingLatest # FetcherCalled # map Log ms @ evs"
    have "lottery_retry_loop e replies attempt s = (Inr None, s\<lparr>events := events s @ ?evs\<rparr>)"
      using lottery_retry_loop_null_step [of attempt e replies s s1, OF True f] loop by (simp add: s1 log_as_update)
    moreover have "count_list ?evs FetcherCalled = maxRetries + 1 - attempt"
      using cnt True by simp
    moreover have "\<forall>d. Sleep d \<notin> set ?evs"
      using nosleep by auto
    ultimately show ?thesis by blast
  qed
qed

text \<open>
  C2, as the code has it. A \<^verbatim>\<open>null\<close> result of \<^verbatim>\<open>fetchLottoData\<close> is not an error
  (nothing is raised, no failure is logged, \<open>retryDelay\<close> is not waited), but it does
  not end the loop either: the next attempt follows at once, and \<^verbatim>\<open>null\<close> is returned
  only when the attempts are used up. A fetcher that returns \<^verbatim>\<open>null\<close> every time is
  invoked exactly \<open>maxRetries\<close> times, with no wait, and \<^verbatim>\<open>extractWithRetry\<close> returns
  \<^verbatim>\<open>null\<close>, leaving all but the trace as it was.
\<close>

theorem null_result_next_attempt:
  "(attempt \<le> maxRetries \<and>
    fetchLottoData e (replies attempt) (log (ExtractionAttempt attempt) s) = (Inr None, s1)
      \<longrightarrow> lottery_retry_loop e replies attempt s = lottery_retry_loop e replies (attempt + 1) s1) \<and>
   lottery_retry_loop e replies (maxRetries + 1) s1 = (Inr None, log AllAttemptsFailed s1) \<and>
   ((\<forall>n s'. fst (fetchLottoData e (nulls n) s') = Inr None) \<longrightarrow>
      fst (lottery_extractWithRetry e nulls s) = Inr None \<and>
      count_list (events_since s (snd (lottery_extractWithRetry e nulls s))) FetcherCalled = maxRetries \<and>
      (\<forall>d. Sleep d \<notin> set (events_since s (snd (lottery_extractWithRetry e nulls s)))) \<and>
      (snd (lottery_extractWithRetry e nulls s))\<lparr>events := events s\<rparr> = s)"
proof (intro conjI impI)
  assume "attempt \<le> maxRetries \<and>
    fetchLottoData e (replies attempt) (log (ExtractionAttempt attempt) s) = (Inr None, s1)"
  then show "lottery_retry_loop e replies attempt s = lottery_retry_loop e replies (attempt + 1) s1"
    using lottery_retry_loop_null_step [of attempt e replies s s1] by simp
next
  show "lottery_retry_loop e replies (maxRetries + 1) s1 = (Inr None, log AllAttemptsFailed s1)"
    by (subst lottery_retry_loop.simps) simp
next
  assume a: "\<forall>n s'. fst (fetchLottoData e (nulls n) s') = Inr None"
  then obtain evs where *: "lottery_extractWithRetry e nulls s = (Inr None, s\<lparr>events := events s @ evs\<rparr>)"
    and **: "count_list evs FetcherCalled = maxRetries" "\<forall>d. Sleep d \<notin> set evs"
    using lottery_retry_loop_all_null [of e nulls 1 s]
    unfolding lottery_extractWithRetry_def by auto
  show "fst (lottery_extractWithRetry e nulls s) = Inr None"
    and "count_list (events_since s (snd (lottery_extractWithRetry e nulls s))) FetcherCalled = maxRetries"
    and "\<forall>d. Sleep d \<notin> set (events_since s (snd (lottery_extractWithRetry e nulls s)))"
    and "(snd (lottery_extractWithRetry e nulls s))\<lparr>events := events s\<rparr> = s"
    using * ** by simp_all
qed

theorem null_result_next_attempt_witness:
  "(1::nat) \<le> maxRetries \<and>
   fetchLottoData env0 (always_unavailable 1) (log (ExtractionAttempt 1) (constructor None)) =
     (Inr None, (constructor None)\<lparr>events :=
        [Log (ExtractionAttempt 1), Log FetchingLatest, FetcherCalled, Log (NoDataFound 503)]\<rparr>) \<and>
   lottery_retry_loop env0 always_unavailable 1 (constructor None) =
     lottery_retry_loop env0 always_unavailable 2 ((constructor None)\<lparr>events :=
        [Log (ExtractionAttempt 1), Log FetchingLatest, FetcherCalled, Log (NoDataFound 503)]\<rparr>) \<and>
   (\<forall>n s'. fst (fetchLottoData env0 (always_unavailable n) s') = Inr None) \<and>
   fst (lottery_extractWithRetry env0 always_unavailable (constructor None)) = Inr None \<and>
   count_list (events_since (constructor None)
     (snd (lottery_extractWithRetry env0 always_unavailable (constructor None)))) FetcherCalled = 3"
proof -
  have a: "(1::nat) \<le> maxRetries" by (simp add: maxRetries_def)
  have b: "fetchLottoData env0 (always_unavailable 1) (log (ExtractionAttempt 1) (constructor None)) =
     (Inr None, (constructor None)\<lparr>events :=
        [Log (ExtractionAttempt 1), Log FetchingLatest, FetcherCalled, Log (NoDataFound 503)]\<rparr>)"
    by (simp add: fetchLottoData_def always_unavailable_def log_as_update emit_as_update constructor_def)
  have c: "\<forall>n s'. fst (fetchLottoData env0 (always_unavailable n) s') = Inr None"
    by (simp add: fetchLottoData_def always_unavailable_def)
  note t = null_result_next_attempt [where e = env0 and replies = always_unavailable
      and nulls = always_unavailable and attempt = 1 and s = "constructor None"
      and ?s1.0 = "(constructor None)\<lparr>events :=
        [Log (ExtractionAttempt 1), Log FetchingLatest, FetcherCalled, Log (NoDataFound 503)]\<rparr>"]
  from t a b have d: "lottery_retry_loop env0 always_unavailable 1 (constructor None) =
     lottery_retry_loop env0 always_unavailable 2 ((constructor None)\<lparr>events :=
        [Log (ExtractionAttempt 1), Log FetchingLatest, FetcherCalled, Log (NoDataFound 503)]\<rparr>)"
    by (simp add: numeral_2_eq_2)
  from t c have "fst (lottery_extractWithRetry env0 always_unavailable (constructor None)) = Inr None"
    and "count_list (events_since (constructor None)
     (snd (lottery_extractWithRetry env0 always_unavailable (constructor None)))) FetcherCalled = 3"
    by (simp_all add: maxRetries_def)
  with a b c d show ?thesis by blast
qed

text \<open>
  C2 as stated fails: with an API that answers 503 to the first request and a draw to
  the second, the first \<^verbatim>\<open>fetchLottoData\<close> returns \<^verbatim>\<open>null\<close>, yet \<^verbatim>\<open>extractWithRetry\<close>
  invokes the fetcher a second time and returns the draw, not \<^verbatim>\<open>null\<close>.
\<close>

theorem null_result_counterexample:
  "fst (fetchLottoData env0 (unavailable_then_draw 1) (log (ExtractionAttempt 1) (constructor None)))
     = Inr None \<and>
   fst (lottery_extractWithRetry env0 unavailable_then_draw (constructor None))
     = Inr (Some [draw_record]) \<and>
   count_list (events_since (constructor None)
     (snd (lottery_extractWithRetry env0 unavailable_then_draw (constructor None)))) FetcherCalled = 2"
  by (simp add: lottery_extractWithRetry_def lottery_retry_loop.simps [of env0 unavailable_then_draw]
      fetchLottoData_def unavailable_then_draw_def maxRetries_def draw_result_def
      draw_record_def number_or_null_def constructor_def events_since_def)

section \<open>Properties of the snapshot file\<close>

lemma saveData_fields [simp]:
  "currentData (saveData e data s) = currentData s"
  "isRunning (saveData e data s) = isRunning s"
  "timeoutId (saveData e data s) = timeoutId s"
  "timers (saveData e data s) = timers s"
  "timerCount (saveData e data s) = timerCount s"
  by (simp_all add: saveData_def fs_writeFile_def split: option.splits)

lemma saveData_dataFile:
  "dataFile (saveData e data s) =
     (if writeError e = None
      then Some (Json (JObject [(''lastUpdated'', JString (now e)),
                 (''recordCount'', JNumber (int (length data))), (''data'', JArray data)]))
      else dataFile s)"
  by (simp add: saveData_def fs_writeFile_def JSON_stringify_def split: option.splits)

lemma saveData_events:
  "events (saveData e data s) = events s @
     [WriteFile, Log (case writeError e of None \<Rightarrow> SavedRecords (length data)
                      | Some err \<Rightarrow> SaveError (message err))]"
  by (simp add: saveData_def fs_writeFile_def split: option.splits)

lemma loadExistingData_fields [simp]:
  "isRunning (loadExistingData e s) = isRunning s"
  "timeoutId (loadExistingData e s) = timeoutId s"
  "dataFile (loadExistingData e s) = dataFile s"
  "timers (loadExistingData e s) = timers s"
  "timerCount (loadExistingData e s) = timerCount s"
  by (simp_all add: loadExistingData_def load_failed_def split: sum.splits)

lemma loadExistingData_events:
  "\<exists>m. events (loadExistingData e s) = events s @ [Log m]"
  by (auto simp: loadExistingData_def load_failed_def split: sum.splits)

lemma loadExistingData_array:
  assumes "readError e = None" and "dataFile s = Some (Json (JArray records))"
  shows "loadExistingData e s = log LoadedRecords (s\<lparr>currentData := JArray records\<rparr>)"
  using assms by (simp add: loadExistingData_def fs_readFile_def js_or_def)

lemma loadExistingData_wrapped:
  assumes "readError e = None" and "dataFile s = Some (Json (JObject props))"
    and "map_of props ''data'' = Some (JArray records)"
  shows "loadExistingData e s = log LoadedRecords (s\<lparr>currentData := JArray records\<rparr>)"
  using assms by (simp add: loadExistingData_def fs_readFile_def js_or_def)

lemma loadExistingData_read_fails:
  assumes "readError e = Some err"
  shows "currentData (loadExistingData e s) = JArray []"
    and "events (loadExistingData e s) = events s @
       [Log (if code err = Some ''ENOENT'' then NoExistingFile else LoadError (message err))]"
  using assms by (simp_all add: loadExistingData_def fs_readFile_def load_failed_def)

text \<open>
  C7. When the write and the read succeed, \<^verbatim>\<open>saveData(records)\<close> followed by
  \<^verbatim>\<open>loadExistingData()\<close> leaves \<open>currentData\<close> equal to \<open>records\<close>: the file then
  holds the wrapper with \<open>lastUpdated\<close>, \<open>recordCount\<close> and \<open>data\<close>, of which the load
  keeps \<open>data\<close> only. This holds for the empty record list too.
\<close>

theorem save_then_load:
  assumes "writeError e1 = None" and "readError e2 = None"
  shows "currentData (loadExistingData e2 (saveData e1 records s)) = JArray records \<and>
         dataFile (loadExistingData e2 (saveData e1 records s)) =
           Some (Json (JObject [(''lastUpdated'', JString (now e1)),
             (''recordCount'', JNumber (int (length records))), (''data'', JArray records)]))"
proof -
  have f: "dataFile (saveData e1 records s) =
           Some (Json (JObject [(''lastUpdated'', JString (now e1)),
             (''recordCount'', JNumber (int (length records))), (''data'', JArray records)]))"
    using assms(1) by (simp add: saveData_dataFile)
  have "loadExistingData e2 (saveData e1 records s) =
      log LoadedRecords ((saveData e1 records s)\<lparr>currentData := JArray records\<rparr>)"
    by (rule loadExistingData_wrapped [OF assms(2) f]) simp
  with f show ?thesis by simp
qed

theorem save_then_load_witness:
  "writeError env0 = None \<and> readError env0 = None \<and>
   currentData (loadExistingData env0 (saveData env0 [stk ''X'' ''111'' ''t0'', stk ''Y'' ''222'' ''t0'']
      (constructor None))) = JArray [stk ''X'' ''111'' ''t0'', stk ''Y'' ''222'' ''t0''] \<and>
   currentData (loadExistingData env0 (saveData env0 ([] :: lottery_record list)
      (constructor (Some legacy_file)))) = JArray []"
  using save_then_load [of env0 env0 "[stk ''X'' ''111'' ''t0'', stk ''Y'' ''222'' ''t0'']" "constructor None"]
    save_then_load [of env0 env0 "[] :: lottery_record list" "constructor (Some legacy_file)"]
  by simp

text \<open>
  C8. \<^verbatim>\<open>loadExistingData()\<close> on a file that holds the bare array \<open>records\<close> and on a
  file that holds an object whose \<open>data\<close> property is \<open>records\<close> ends with the same
  \<open>currentData\<close> and logs the same line; when the read succeeds that \<open>currentData\<close> is
  \<open>records\<close>.
\<close>

theorem load_legacy_same_as_wrapped:
  assumes "map_of props ''data'' = Some (JArray records)"
  shows "currentData (loadExistingData e (s\<lparr>dataFile := Some (Json (JArray records))\<rparr>)) =
         currentData (loadExistingData e (s\<lparr>dataFile := Some (Json (JObject props))\<rparr>)) \<and>
         events (loadExistingData e (s\<lparr>dataFile := Some (Json (JArray records))\<rparr>)) =
         events (loadExistingData e (s\<lparr>dataFile := Some (Json (JObject props))\<rparr>)) \<and>
         (readError e = None \<longrightarrow>
            currentData (loadExistingData e (s\<lparr>dataFile := Some (Json (JArray records))\<rparr>)) = JArray records)"
proof (cases "readError e")
  case None
  then show ?thesis
    using assms
      loadExistingData_array [of e "s\<lparr>dataFile := Some (Json (JArray records))\<rparr>" records]
      loadExistingData_wrapped [of e "s\<lparr>dataFile := Some (Json (JObject props))\<rparr>" props records]
    by simp
next
  case (Some err)
  then show ?thesis
    by (simp add: loadExistingData_read_fails)
qed

theorem load_legacy_same_as_wrapped_witness:
  "map_of [(''lastUpdated'', JString ''t5''), (''recordCount'', JNumber 2),
      (''data'', JArray [lot ''A'' ''1'' ''t0'', lot ''B'' ''2'' ''t0''])] ''data''
     = Some (JArray [lot ''A'' ''1'' ''t0'', lot ''B'' ''2'' ''t0'']) \<and>
   currentData (loadExistingData env0 ((constructor None)\<lparr>dataFile := Some legacy_file\<rparr>)) =
   currentData (loadExistingData env0 ((constructor None)\<lparr>dataFile := Some wrapped_file\<rparr>)) \<and>
   currentData (loadExistingData env0 ((constructor None)\<lparr>dataFile := Some legacy_file\<rparr>)) =
     JArray [lot ''A'' ''1'' ''t0'', lot ''B'' ''2'' ''t0'']"
  using load_legacy_same_as_wrapped [of
      "[(''lastUpdated'', JString ''t5''), (''recordCount'', JNumber 2),
        (''data'', JArray [lot ''A'' ''1'' ''t0'', lot ''B'' ''2'' ''t0''])]"
      "[lot ''A'' ''1'' ''t0'', lot ''B'' ''2'' ''t0'']" env0 "constructor None"]
  by (auto simp: legacy_file_def wrapped_file_def)

section \<open>Properties of \<^verbatim>\<open>processNewData\<close>\<close>

lemma fold_log_as_update: "fold log ms s = s\<lparr>events := events s @ map Log ms\<rparr>"
  by (induction ms arbitrary: s) (simp_all add: log_as_update)

lemma log_each_as_update:
  "log_each lines xs s = s\<lparr>events := events s @ map Log (concat (map lines xs))\<rparr>"
  unfolding log_each_def
  by (induction xs arbitrary: s) (simp_all add: fold_log_as_update)

lemma totalChanges_0: "totalChanges changes = 0 \<longleftrightarrow> changes = no_changes"
  by (cases changes) (simp add: totalChanges_def no_changes_def)

lemma process_changes_raises:
  "as_array (currentData s) = Inl err \<Longrightarrow>
     process_changes ident changed updatedLines e newData s = (Inl err, s)"
  "process_changes ident changed updatedLines e None s =
     (Inl (case as_array (currentData s) of Inl err \<Rightarrow> err | Inr xs \<Rightarrow> TypeError), s)"
  by (simp_all add: process_changes_def split: sum.splits)

lemma process_changes_unchanged:
  assumes "currentData s = JArray oldData"
    and "totalChanges (detectChanges ident changed oldData newRecords) = 0"
  shows "process_changes ident changed updatedLines e (Some newRecords) s =
           (Inr no_changes, log NoChangesDetected s)"
proof -
  from assms(2) have "detectChanges ident changed oldData newRecords = no_changes"
    by (simp add: totalChanges_0)
  then show ?thesis
    using assms(1) by (simp add: process_changes_def as_array_def no_changes_def totalChanges_def)
qed

lemma process_changes_changed:
  assumes "currentData s = JArray oldData"
    and "totalChanges (detectChanges ident changed oldData newRecords) > 0"
  shows "\<exists>ms. process_changes ident changed updatedLines e (Some newRecords) s =
           (Inr (detectChanges ident changed oldData newRecords),
            s\<lparr>currentData := JArray newRecords,
              dataFile := (if writeError e = None
                 then Some (Json (JObject [(''lastUpdated'', JString (now e)),
                        (''recordCount'', JNumber (int (length newRecords))),
                        (''data'', JArray newRecords)]))
                 else dataFile s),
              events := events s @ map Log ms @
                [WriteFile,
                 Log (case writeError e of None \<Rightarrow> SavedRecords (length newRecords)
                      | Some err \<Rightarrow> SaveError (message err)),
                 Log (DataUpdated (totalChanges (detectChanges ident changed oldData newRecords)))]\<rparr>)"
proof -
  define ch where "ch = detectChanges ident changed oldData newRecords"
  define s1 where "s1 = (if length (added ch) > 0
                          then log_each (\<lambda>r. [AddedItem (ident r)]) (added ch)
                                 (log (AddedCount (length (added ch))) s)
                          else s)"
  define s2 where "s2 = (if length (updated ch) > 0
                          then log_each updatedLines (updated ch)
                                 (log (UpdatedCount (length (updated ch))) s1)
                          else s1)"
  define s3 where "s3 = (if length (removed ch) > 0
                          then log_each (\<lambda>r. [RemovedItem (ident r)]) (removed ch)
                                 (log (RemovedCount (length (removed ch))) s2)
                          else s2)"
  obtain m1 where m1: "s1 = s\<lparr>events := events s @ map Log m1\<rparr>"
  proof (cases "length (added ch) > 0")
    case True
    then show ?thesis
      by (intro that [of "AddedCount (length (added ch)) # concat (map (\<lambda>r. [AddedItem (ident r)]) (added ch))"])
        (simp add: s1_def log_each_as_update log_as_update)
  next
    case False
    then show ?thesis by (intro that [of "[]"]) (simp add: s1_def)
  qed
  obtain m2 where m2: "s2 = s1\<lparr>events := events s1 @ map Log m2\<rparr>"
  proof (cases "length (updated ch) > 0")
    case True
    then show ?thesis
      by (intro that [of "UpdatedCount (length (updated ch)) # concat (map updatedLines (updated ch))"])
        (simp add: s2_def log_each_as_update log_as_update)
  next
    case False
    then show ?thesis by (intro that [of "[]"]) (simp add: s2_def)
  qed
  obtain m3 where m3: "s3 = s2\<lparr>events := events s2 @ map Log m3\<rparr>"
  proof (cases "length (removed ch) > 0")
    case True
    then show ?thesis
      by (intro that [of "RemovedCount (length (removed ch)) # concat (map (\<lambda>r. [RemovedItem (ident r)]) (removed ch))"])
        (simp add: s3_def log_each_as_update log_as_update)
  next
    case False
    then show ?thesis by (intro that [of "[]"]) (simp add: s3_def)
  qed
  have s3: "s3 = s\<lparr>events := events s @ map Log (m1 @ m2 @ m3)\<rparr>"
    by (simp add: m1 m2 m3)
  have "process_changes ident changed updatedLines e (Some newRecords) s =
      (Inr ch, log (DataUpdated (totalChanges ch)) (saveData e newRecords (s3\<lparr>currentData := JArray newRecords\<rparr>)))"
    using assms by (simp add: process_changes_def as_array_def Let_def s1_def s2_def s3_def ch_def)
  also have "log (DataUpdated (totalChanges ch)) (saveData e newRecords (s3\<lparr>currentData := JArray newRecords\<rparr>)) =
      s\<lparr>currentData := JArray newRecords,
              dataFile := (if writeError e = None
                 then Some (Json (JObject [(''lastUpdated'', JString (now e)),
                        (''recordCount'', JNumber (int (length newRecords))),
                        (''data'', JArray newRecords)]))
                 else dataFile s),
              events := events s @ map Log (m1 @ m2 @ m3) @
                [WriteFile,
                 Log (case writeError e of None \<Rightarrow> SavedRecords (length newRecords)
                      | Some err \<Rightarrow> SaveError (message err)),
                 Log (DataUpdated (totalChanges ch))]\<rparr>"
    by (simp add: s3 saveData_def fs_writeFile_def JSON_stringify_def log_as_update emit_as_update
        split: option.splits)
  finally show ?thesis unfolding ch_def by blast
qed

lemma process_changes_twice:
  assumes cur: "currentData s = JArray oldData" and irrefl: "\<And>x. \<not> changed x x"
  shows "fst (process_changes ident changed updatedLines e1 (Some newRecords) s) =
           Inr (detectChanges ident changed oldData newRecords) \<and>
         process_changes ident changed updatedLines e2 (Some newRecords)
             (snd (process_changes ident changed updatedLines e1 (Some newRecords) s)) =
           (Inr no_changes,
            log NoChangesDetected (snd (process_changes ident changed updatedLines e1 (Some newRecords) s)))"
proof (cases "totalChanges (detectChanges ident changed oldData newRecords) = 0")
  case True
  note first = process_changes_unchanged [OF cur True, of updatedLines e1]
  have "currentData (log NoChangesDetected s) = JArray oldData" using cur by simp
  from process_changes_unchanged [OF this True, of updatedLines e2] first True
  show ?thesis by (simp add: totalChanges_0)
next
  case False
  then have pos: "totalChanges (detectChanges ident changed oldData newRecords) > 0" by simp
  from process_changes_changed [OF cur pos, of updatedLines e1]
  obtain s1 where first: "process_changes ident changed updatedLines e1 (Some newRecords) s =
      (Inr (detectChanges ident changed oldData newRecords), s1)"
    and s1: "currentData s1 = JArray newRecords"
    by auto
  have "totalChanges (detectChanges ident changed newRecords newRecords) = 0"
    using detectChanges_same [of changed ident newRecords] irrefl by (simp add: totalChanges_0)
  from process_changes_unchanged [OF s1 this, of updatedLines e2] first
  show ?thesis by simp
qed

text \<open>
  C4. Starting from a snapshot that is a record list, \<^verbatim>\<open>processNewData\<close> with a
  (for the lottery scraper, non-empty) record list returns the change set of
  \<^verbatim>\<open>detectChanges\<close>, and a second \<^verbatim>\<open>processNewData\<close> with the same list, run in the
  state the first one leaves, returns the empty change set and does nothing but log
  one line: \<open>currentData\<close> and the data file stay as the first call left them, and
  nothing is written.
\<close>

theorem processNewData_twice:
  assumes "currentData ls = JArray lold" and "lnew \<noteq> []" and "currentData ss = JArray sold"
  shows "fst (lottery_processNewData e1 (Some lnew) ls) = Inr (lottery_detectChanges lold lnew) \<and>
         lottery_processNewData e2 (Some lnew) (snd (lottery_processNewData e1 (Some lnew) ls)) =
           (Inr \<lparr>added = [], updated = [], removed = []\<rparr>,
            log NoChangesDetected (snd (lottery_processNewData e1 (Some lnew) ls))) \<and>
         fst (stock_processNewData e1 (Some snew) ss) = Inr (stock_detectChanges sold snew) \<and>
         stock_processNewData e2 (Some snew) (snd (stock_processNewData e1 (Some snew) ss)) =
           (Inr \<lparr>added = [], updated = [], removed = []\<rparr>,
            log NoChangesDetected (snd (stock_processNewData e1 (Some snew) ss)))"
proof -
  have l: "\<not> lottery_hasDataChanged x x" for x by (simp add: lottery_unchanged_iff)
  have s: "\<not> stock_hasDataChanged x x" for x by (simp add: stock_unchanged_iff)
  show ?thesis
    using process_changes_twice [where changed = lottery_hasDataChanged and ident = date
          and ?e1.0 = e1 and newRecords = lnew and ?e2.0 = e2, OF assms(1) l]
      process_changes_twice [where changed = stock_hasDataChanged and ident = stockName
          and ?e1.0 = e1 and newRecords = snew and ?e2.0 = e2, OF assms(3) s] assms(2)
    by (simp add: lottery_processNewData_def stock_processNewData_def lottery_detectChanges_def
        stock_detectChanges_def no_changes_def)
qed

theorem processNewData_twice_witness:
  "currentData (constructor None :: lottery_record manager) = JArray [] \<and>
   [lot ''A'' ''1'' ''t1''] \<noteq> [] \<and>
   currentData ((constructor None :: stock_record manager)\<lparr>currentData := JArray [stk ''X'' ''111'' ''t0'']\<rparr>)
     = JArray [stk ''X'' ''111'' ''t0''] \<and>
   fst (lottery_processNewData env0 (Some [lot ''A'' ''1'' ''t1'']) (constructor None)) =
     Inr \<lparr>added = [lot ''A'' ''1'' ''t1''], updated = [], removed = []\<rparr> \<and>
   fst (lottery_processNewData env0 (Some [lot ''A'' ''1'' ''t1''])
     (snd (lottery_processNewData env0 (Some [lot ''A'' ''1'' ''t1'']) (constructor None)))) =
     Inr \<lparr>added = [], updated = [], removed = []\<rparr> \<and>
   fst (stock_processNewData env0 (Some [stk ''X'' ''112'' ''t1''])
     ((constructor None)\<lparr>currentData := JArray [stk ''X'' ''111'' ''t0'']\<rparr>)) =
     Inr \<lparr>added = [],
       updated = [\<lparr>key = ''X'', old = stk ''X'' ''111'' ''t0'', new = stk ''X'' ''112'' ''t1''\<rparr>],
       removed = []\<rparr> \<and>
   fst (stock_processNewData env0 (Some [stk ''X'' ''112'' ''t1''])
     (snd (stock_processNewData env0 (Some [stk ''X'' ''112'' ''t1''])
       ((constructor None)\<lparr>currentData := JArray [stk ''X'' ''111'' ''t0'']\<rparr>)))) =
     Inr \<lparr>added = [], updated = [], removed = []\<rparr>"
proof -
  have a: "currentData (constructor None :: lottery_record manager) = JArray []"
    by (simp add: constructor_def)
  have b: "[lot ''A'' ''1'' ''t1''] \<noteq> []" by simp
  have c: "currentData ((constructor None :: stock_record manager)\<lparr>currentData := JArray [stk ''X'' ''111'' ''t0'']\<rparr>)
     = JArray [stk ''X'' ''111'' ''t0'']" by simp
  have d: "lottery_detectChanges [] [lot ''A'' ''1'' ''t1''] =
      \<lparr>added = [lot ''A'' ''1'' ''t1''], updated = [], removed = []\<rparr>"
    by (simp add: lottery_detectChanges_def detectChanges_Maps new_Map_def lot_def)
  have e: "stock_detectChanges [stk ''X'' ''111'' ''t0''] [stk ''X'' ''112'' ''t1''] =
      \<lparr>added = [],
       updated = [\<lparr>key = ''X'', old = stk ''X'' ''111'' ''t0'', new = stk ''X'' ''112'' ''t1''\<rparr>],
       removed = []\<rparr>"
    by (simp add: stock_detectChanges_def detectChanges_Maps new_Map_def stk_def stock_hasDataChanged_def)
  from processNewData_twice [OF a b c, of env0 env0 "[stk ''X'' ''112'' ''t1'']"] a b c d e
  show ?thesis by simp
qed

lemma detectChanges_against_empty:
  "added (detectChanges ident changed cur []) = []"
  "updated (detectChanges ident changed cur []) = []"
  "ident ` set (removed (detectChanges ident changed cur [])) = ident ` set cur"
  "set (removed (detectChanges ident changed cur [])) \<subseteq> set cur"
  "distinct (map ident cur) \<Longrightarrow> removed (detectChanges ident changed cur []) = cur"
proof -
  let ?om = "new_Map (map (\<lambda>item. (ident item, item)) cur)"
  have r: "removed (detectChanges ident changed cur []) = map snd ?om"
    by (simp add: detectChanges_Maps new_Map_def [of "[]"])
  have sub: "set ?om \<subseteq> (\<lambda>item. (ident item, item)) ` set cur"
    using new_Map_subset [of "map (\<lambda>item. (ident item, item)) cur"] by simp
  show "added (detectChanges ident changed cur []) = []"
    and "updated (detectChanges ident changed cur []) = []"
    by (simp_all add: detectChanges_Maps new_Map_def [of "[]"])
  show "set (removed (detectChanges ident changed cur [])) \<subseteq> set cur"
    using sub by (auto simp: r)
  have "ident ` snd ` set ?om = fst ` set ?om"
    using sub by (force simp: image_iff)
  also have "\<dots> = ident ` set cur"
    by (simp add: new_Map_keys image_image)
  finally show "ident ` set (removed (detectChanges ident changed cur [])) = ident ` set cur"
    by (simp add: r)
  show "removed (detectChanges ident changed cur []) = cur" if "distinct (map ident cur)"
    using detectChanges_distinct(2) [where ident = ident and oldData = cur and newData = "[]"
        and changed = changed] that by simp
qed

text \<open>
  C10. In the stock scraper an extraction that succeeds with no rows is passed on as the
  empty list, and \<^verbatim>\<open>processNewData\<close> of the empty list against a non-empty snapshot
  reports no added and no updated record and, as removed, a record for every key of the
  snapshot (the snapshot itself when its keys are unique); it sets \<open>currentData\<close> to
  the empty list and calls \<^verbatim>\<open>saveData\<close> with it. The lottery scraper's
  \<^verbatim>\<open>processNewData\<close> returns the empty change set for \<^verbatim>\<open>null\<close> and for the empty
  list and does nothing but log a line.
\<close>

theorem stock_empty_fetch_clears_snapshot:
  assumes "currentData s = JArray cur" and "cur \<noteq> []"
  shows "(pages 1 = Inr [] \<longrightarrow> fst (stock_extractWithRetry pages s) = Inr (Some [])) \<and>
         fst (stock_processNewData e (Some []) s) = Inr (stock_detectChanges cur []) \<and>
         added (stock_detectChanges cur []) = [] \<and>
         updated (stock_detectChanges cur []) = [] \<and>
         removed (stock_detectChanges cur []) \<noteq> [] \<and>
         stockName ` set (removed (stock_detectChanges cur [])) = stockName ` set cur \<and>
         set (removed (stock_detectChanges cur [])) \<subseteq> set cur \<and>
         (distinct (map stockName cur) \<longrightarrow> removed (stock_detectChanges cur []) = cur) \<and>
         currentData (snd (stock_processNewData e (Some []) s)) = JArray [] \<and>
         WriteFile \<in> set (events_since s (snd (stock_processNewData e (Some []) s))) \<and>
         (writeError e = None \<longrightarrow>
            dataFile (snd (stock_processNewData e (Some []) s)) =
              Some (Json (JObject [(''lastUpdated'', JString (now e)),
                (''recordCount'', JNumber 0), (''data'', JArray [])]))) \<and>
         lottery_processNewData e None ls = (Inr \<lparr>added = [], updated = [], removed = []\<rparr>, log NoNewData ls) \<and>
         lottery_processNewData e (Some []) ls =
           (Inr \<lparr>added = [], updated = [], removed = []\<rparr>, log NoNewData ls)"
proof -
  note d = detectChanges_against_empty [where ident = stockName and changed = stock_hasDataChanged
      and cur = cur]
  have ne: "removed (stock_detectChanges cur []) \<noteq> []"
  proof
    assume "removed (stock_detectChanges cur []) = []"
    then have "stockName ` set cur = {}" using d(3) by (simp add: stock_detectChanges_def)
    with assms(2) show False by simp
  qed
  then have pos: "totalChanges (detectChanges stockName stock_hasDataChanged cur []) > 0"
    by (simp add: totalChanges_def stock_detectChanges_def)
  from process_changes_changed [OF assms(1) pos, where e = e
      and updatedLines = "\<lambda>change. [UpdatedItem (key change)]"]
  obtain ms where p: "stock_processNewData e (Some []) s =
     (Inr (stock_detectChanges cur []),
      s\<lparr>currentData := JArray [],
        dataFile := (if writeError e = None
           then Some (Json (JObject [(''lastUpdated'', JString (now e)),
                  (''recordCount'', JNumber (int (length ([] :: stock_record list)))),
                  (''data'', JArray [])]))
           else dataFile s),
        events := events s @ map Log ms @
          [WriteFile,
           Log (case writeError e of None \<Rightarrow> SavedRecords (length ([] :: stock_record list))
                | Some err \<Rightarrow> SaveError (message err)),
           Log (DataUpdated (totalChanges (detectChanges stockName stock_hasDataChanged cur [])))]\<rparr>)"
    unfolding stock_processNewData_def stock_detectChanges_def by blast
  have x: "pages 1 = Inr [] \<longrightarrow> fst (stock_extractWithRetry pages s) = Inr (Some [])"
    unfolding stock_extractWithRetry_def
    by (subst stock_retry_loop.simps) (simp add: maxRetries_def)
  have l: "lottery_processNewData e None ls = (Inr \<lparr>added = [], updated = [], removed = []\<rparr>, log NoNewData ls)"
    "lottery_processNewData e (Some []) ls = (Inr \<lparr>added = [], updated = [], removed = []\<rparr>, log NoNewData ls)"
    by (simp_all add: lottery_processNewData_def no_changes_def)
  show ?thesis
    using d ne x l by (simp add: p stock_detectChanges_def events_since_def)
qed

theorem stock_empty_fetch_clears_snapshot_witness:
  "currentData ((constructor None)\<lparr>currentData := JArray [stk ''X'' ''111'' ''t0'', stk ''Y'' ''222'' ''t0'']\<rparr>)
     = JArray [stk ''X'' ''111'' ''t0'', stk ''Y'' ''222'' ''t0''] \<and>
   [stk ''X'' ''111'' ''t0'', stk ''Y'' ''222'' ''t0''] \<noteq> [] \<and>
   distinct (map stockName [stk ''X'' ''111'' ''t0'', stk ''Y'' ''222'' ''t0'']) \<and>
   writeError env0 = None \<and>
   removed (stock_detectChanges [stk ''X'' ''111'' ''t0'', stk ''Y'' ''222'' ''t0''] []) =
     [stk ''X'' ''111'' ''t0'', stk ''Y'' ''222'' ''t0''] \<and>
   currentData (snd (stock_processNewData env0 (Some [])
     ((constructor None)\<lparr>currentData := JArray [stk ''X'' ''111'' ''t0'', stk ''Y'' ''222'' ''t0'']\<rparr>)))
     = JArray [] \<and>
   dataFile (snd (stock_processNewData env0 (Some [])
     ((constructor None)\<lparr>currentData := JArray [stk ''X'' ''111'' ''t0'', stk ''Y'' ''222'' ''t0'']\<rparr>)))
     = Some (Json (JObject [(''lastUpdated'', JString ''t9''),
                (''recordCount'', JNumber 0), (''data'', JArray [])]))"
proof -
  have a: "currentData ((constructor None)\<lparr>currentData := JArray [stk ''X'' ''111'' ''t0'', stk ''Y'' ''222'' ''t0'']\<rparr>)
     = JArray [stk ''X'' ''111'' ''t0'', stk ''Y'' ''222'' ''t0'']" by simp
  have b: "[stk ''X'' ''111'' ''t0'', stk ''Y'' ''222'' ''t0''] \<noteq> []" by simp
  have c: "distinct (map stockName [stk ''X'' ''111'' ''t0'', stk ''Y'' ''222'' ''t0''])"
    by (simp add: stk_def)
  have d: "writeError env0 = None" by simp
  from stock_empty_fetch_clears_snapshot [OF a b, where e = env0] a b c d
  show ?thesis by simp
qed

section \<open>Properties of the scraping cycle\<close>

lemma lottery_retry_loop_effect:
  "\<exists>evs. snd (lottery_retry_loop e replies attempt s) = s\<lparr>events := events s @ evs\<rparr> \<and>
         WriteFile \<notin> set evs"
proof (induction e replies attempt s rule: lottery_retry_loop.induct)
  case (1 e replies attempt s)
  show ?case
  proof (cases "attempt \<le> maxRetries")
    case False
    then have "snd (lottery_retry_loop e replies attempt s) =
        s\<lparr>events := events s @ [Log AllAttemptsFailed]\<rparr>"
      by (subst lottery_retry_loop.simps) (simp add: log_as_update)
    then show ?thesis by (intro exI [of _ "[Log AllAttemptsFailed]"]) simp
  next
    case True
    let ?s0 = "log (ExtractionAttempt attempt) s"
    obtain r s1 where f: "fetchLottoData e (replies attempt) ?s0 = (r, s1)"
      by (cases "fetchLottoData e (replies attempt) ?s0")
    obtain ms where "s1 = ?s0\<lparr>events := events ?s0 @ Log FetchingLatest # FetcherCalled # map Log ms\<rparr>"
      using fetchLottoData_effect [of e "replies attempt" ?s0] f by auto
    then have s1: "s1 = s\<lparr>events := events s @
        Log (ExtractionAttempt attempt) # Log FetchingLatest # FetcherCalled # map Log ms\<rparr>"
      (is "_ = s\<lparr>events := events s @ ?pre\<rparr>")
      by (simp add: log_as_update)
    have pre: "WriteFile \<notin> set ?pre" by auto
    have step: "\<exists>evs. s2 = s\<lparr>events := events s @ evs\<rparr> \<and> WriteFile \<notin> set evs"
      if "\<exists>evs. s2 = s1\<lparr>events := events s1 @ evs\<rparr> \<and> WriteFile \<notin> set evs" for s2
    proof -
      from that obtain evs where "s2 = s1\<lparr>events := events s1 @ evs\<rparr>" "WriteFile \<notin> set evs"
        by blast
      with pre have "s2 = s\<lparr>events := events s @ (?pre @ evs)\<rparr> \<and> WriteFile \<notin> set (?pre @ evs)"
        by (simp add: s1)
      then show ?thesis by blast
    qed
    show ?thesis
    proof (cases r)
      case (Inr result)
      show ?thesis
      proof (cases result)
        case None
        from "1.IH"(2) [OF True f [symmetric] Inr None]
        have "\<exists>evs. snd (lottery_retry_loop e replies (attempt + 1) s1) =
            s1\<lparr>events := events s1 @ evs\<rparr> \<and> WriteFile \<notin> set evs" .
        moreover have "lottery_retry_loop e replies attempt s =
            lottery_retry_loop e replies (attempt + 1) s1"
          using True f Inr None by (subst lottery_retry_loop.simps) simp
        ultimately show ?thesis using step by simp
      next
        case (Some rec)
        have "snd (lottery_retry_loop e replies attempt s) =
            s1\<lparr>events := events s1 @ [Log (ExtractedLottery (date rec))]\<rparr>"
          using True f Inr Some by (subst lottery_retry_loop.simps) (simp add: log_as_update)
        then show ?thesis by (intro step exI [of _ "[Log (ExtractedLottery (date rec))]"]) simp
      qed
    next
      case (Inl err)
      let ?s2 = "log (AttemptFailed attempt (message err)) s1"
      show ?thesis
      proof (cases "attempt = maxRetries")
        case same: True
        have "snd (lottery_retry_loop e replies attempt s) =
            s1\<lparr>events := events s1 @ [Log (AttemptFailed attempt (message err))]\<rparr>"
          using True f Inl same by (subst lottery_retry_loop.simps) (simp add: log_as_update)
        then show ?thesis
          by (intro step exI [of _ "[Log (AttemptFailed attempt (message err))]"]) simp
      next
        case False
        from "1.IH"(1) [OF True f [symmetric] Inl refl False]
        obtain evs where "snd (lottery_retry_loop e replies (attempt + 1) (emit (Sleep retryDelay) ?s2)) =
            (emit (Sleep retryDelay) ?s2)\<lparr>events := events (emit (Sleep retryDelay) ?s2) @ evs\<rparr>"
          and "WriteFile \<notin> set evs"
          by blast
        moreover have "lottery_retry_loop e replies attempt s =
            lottery_retry_loop e replies (attempt + 1) (emit (Sleep retryDelay) ?s2)"
          using True f Inl False by (subst lottery_retry_loop.simps) simp
        ultimately have "snd (lottery_retry_loop e replies attempt s) =
            s1\<lparr>events := events s1 @
               (Log (AttemptFailed attempt (message err)) # Sleep retryDelay # evs)\<rparr> \<and>
            WriteFile \<notin> set (Log (AttemptFailed attempt (message err)) # Sleep retryDelay # evs)"
          by (simp add: log_as_update emit_as_update)
        then show ?thesis by (intro step) blast
      qed
    qed
  qed
qed

lemma stock_retry_loop_effect:
  "\<exists>evs. snd (stock_retry_loop pages attempt s) = s\<lparr>events := events s @ evs\<rparr> \<and>
         WriteFile \<notin> set evs"
proof (induction pages attempt s rule: stock_retry_loop.induct)
  case (1 pages attempt s)
  show ?case
  proof (cases "attempt \<le> maxRetries")
    case False
    then have "snd (stock_retry_loop pages attempt s) = s\<lparr>events := events s @ []\<rparr>"
      by (subst stock_retry_loop.simps) simp
    then show ?thesis by (intro exI [of _ "[]"]) simp
  next
    case True
    let ?s1 = "emit FetcherCalled (log (ExtractionAttempt attempt) s)"
    show ?thesis
    proof (cases "pages attempt")
      case (Inr results)
      have "snd (stock_retry_loop pages attempt s) = s\<lparr>events := events s @
          [Log (ExtractionAttempt attempt), FetcherCalled, Log (ExtractedResults (length results))]\<rparr>"
        using True Inr by (subst stock_retry_loop.simps) (simp add: log_as_update emit_as_update)
      then show ?thesis
        by (intro exI [of _ "[Log (ExtractionAttempt attempt), FetcherCalled,
              Log (ExtractedResults (length results))]"]) simp
    next
      case (Inl err)
      let ?s2 = "log (AttemptFailed attempt (message err)) ?s1"
      show ?thesis
      proof (cases "attempt = maxRetries")
        case same: True
        have "snd (stock_retry_loop pages attempt s) = s\<lparr>events := events s @
          [Log (ExtractionAttempt attempt), FetcherCalled, Log (AttemptFailed attempt (message err))]\<rparr>"
          using True Inl same by (subst stock_retry_loop.simps) (simp add: log_as_update emit_as_update)
        then show ?thesis
          by (intro exI [of _ "[Log (ExtractionAttempt attempt), FetcherCalled,
              Log (AttemptFailed attempt (message err))]"]) simp
      next
        case False
        from "1.IH" [OF True refl Inl refl False]
        obtain evs where "snd (stock_retry_loop pages (attempt + 1) (emit (Sleep retryDelay) ?s2)) =
            (emit (Sleep retryDelay) ?s2)\<lparr>events := events (emit (Sleep retryDelay) ?s2) @ evs\<rparr>"
          and "WriteFile \<notin> set evs"
          by blast
        moreover have "stock_retry_loop pages attempt s =
            stock_retry_loop pages (attempt + 1) (emit (Sleep retryDelay) ?s2)"
          using True Inl False by (subst stock_retry_loop.simps) simp
        ultimately have "snd (stock_retry_loop pages attempt s) =
            s\<lparr>events := events s @
               (Log (ExtractionAttempt attempt) # FetcherCalled #
                Log (AttemptFailed attempt (message err)) # Sleep retryDelay # evs)\<rparr> \<and>
            WriteFile \<notin> set (Log (ExtractionAttempt attempt) # FetcherCalled #
                Log (AttemptFailed attempt (message err)) # Sleep retryDelay # evs)"
          by (simp add: log_as_update emit_as_update)
        then show ?thesis by blast
      qed
    qed
  qed
qed

lemma as_array_Inr: "as_array v = Inr xs \<longleftrightarrow> v = JArray xs"
  by (cases v) (simp_all add: as_array_def)

lemma process_changes_outcome:
  assumes irrefl: "\<And>x. \<not> changed x x"
  shows "process_outcome (process_changes ident changed updatedLines e newData s) s"
proof (cases "as_array (currentData s)")
  case (Inl err)
  then show ?thesis by (simp add: process_outcome_def process_changes_raises)
next
  case (Inr oldData)
  then have cur: "currentData s = JArray oldData" by (simp add: as_array_Inr)
  show ?thesis
  proof (cases newData)
    case None
    then show ?thesis by (simp add: process_outcome_def process_changes_raises)
  next
    case (Some newRecords)
    show ?thesis
    proof (cases "totalChanges (detectChanges ident changed oldData newRecords) = 0")
      case True
      from process_changes_unchanged [OF cur True] Some show ?thesis
        unfolding process_outcome_def by blast
    next
      case False
      then have pos: "totalChanges (detectChanges ident changed oldData newRecords) > 0" by simp
      have "newRecords \<noteq> oldData"
      proof
        assume "newRecords = oldData"
        then have "detectChanges ident changed oldData newRecords = no_changes"
          using detectChanges_same [of changed ident oldData] irrefl by simp
        with pos show False by (simp add: totalChanges_def no_changes_def)
      qed
      then have ne: "JArray newRecords \<noteq> currentData s" by (simp add: cur)
      from process_changes_changed [OF cur pos, where e = e and updatedLines = updatedLines]
      obtain ms where "process_changes ident changed updatedLines e (Some newRecords) s =
           (Inr (detectChanges ident changed oldData newRecords),
            s\<lparr>currentData := JArray newRecords,
              dataFile := (if writeError e = None
                 then Some (Json (JObject [(''lastUpdated'', JString (now e)),
                        (''recordCount'', JNumber (int (length newRecords))),
                        (''data'', JArray newRecords)]))
                 else dataFile s),
              events := events s @ (map Log ms @
                [WriteFile,
                 Log (case writeError e of None \<Rightarrow> SavedRecords (length newRecords)
                      | Some err \<Rightarrow> SaveError (message err)),
                 Log (DataUpdated (totalChanges (detectChanges ident changed oldData newRecords)))])\<rparr>)"
        by auto
      moreover have "WriteFile \<in> set (map Log ms @
                [WriteFile,
                 Log (case writeError e of None \<Rightarrow> SavedRecords (length newRecords)
                      | Some err \<Rightarrow> SaveError (message err)),
                 Log (DataUpdated (totalChanges (detectChanges ident changed oldData newRecords)))])"
        by simp
      ultimately show ?thesis
        using pos ne Some unfolding process_outcome_def by blast
    qed
  qed
qed

lemma lottery_processNewData_outcome:
  "process_outcome (lottery_processNewData e newData s) s"
proof -
  have "process_outcome (Inr no_changes, log NoNewData s) s"
    unfolding process_outcome_def by blast
  moreover have "process_outcome (process_changes date lottery_hasDataChanged
      (\<lambda>change. [UpdatedItem (key change), UpdatedDetail (key change)]) e newData s) s"
    by (rule process_changes_outcome) (simp add: lottery_unchanged_iff)
  ultimately show ?thesis
    by (auto simp: lottery_processNewData_def split: option.splits)
qed

lemma stock_processNewData_outcome:
  "process_outcome (stock_processNewData e newData s) s"
  unfolding stock_processNewData_def
  by (rule process_changes_outcome) (simp add: stock_unchanged_iff)

lemma cycle_outcome_compose:
  fixes s :: "'r manager" and res :: "(error + ('k, 'r) change_set) \<times> 'r manager"
  assumes s1: "s1 = s\<lparr>events := events s @ pre\<rparr>" "WriteFile \<notin> set pre"
    and p: "process_outcome res s1"
  shows "cycle_outcome
           (case res of (Inl err, s2) \<Rightarrow> None | (Inr changes, s2) \<Rightarrow> Some changes) s
           (case res of (Inl err, s2) \<Rightarrow> log (CycleFailed (message err)) s2
                      | (Inr changes, s2) \<Rightarrow> log CycleCompleted s2)"
proof -
  from p consider (raises) err where "res = (Inl err, s1)"
    | (unchanged) m where "res = (Inr no_changes, log m s1)"
    | (changed) changes newRecords disk evs where
        "res = (Inr changes, s1\<lparr>currentData := JArray newRecords, dataFile := disk,
                                events := events s1 @ evs\<rparr>)"
        "totalChanges changes > 0" "JArray newRecords \<noteq> currentData s1" "WriteFile \<in> set evs"
    unfolding process_outcome_def by blast
  then show ?thesis
  proof cases
    case raises
    have "log (CycleFailed (message err)) s1 =
        s\<lparr>events := events s @ (pre @ [Log (CycleFailed (message err))])\<rparr>"
      by (simp add: s1 log_as_update)
    moreover have "WriteFile \<notin> set (pre @ [Log (CycleFailed (message err))])"
      using s1(2) by simp
    ultimately show ?thesis
      unfolding cycle_outcome_def raises by (auto simp: cycle_has_changes_def)
  next
    case unchanged
    have "log CycleCompleted (log m s1) =
        s\<lparr>events := events s @ (pre @ [Log m, Log CycleCompleted])\<rparr>"
      by (simp add: s1 log_as_update)
    moreover have "WriteFile \<notin> set (pre @ [Log m, Log CycleCompleted])"
      using s1(2) by simp
    ultimately show ?thesis
      unfolding cycle_outcome_def unchanged
      by (auto simp: cycle_has_changes_def totalChanges_def no_changes_def)
  next
    case changed
    have "log CycleCompleted (s1\<lparr>currentData := JArray newRecords, dataFile := disk,
                                events := events s1 @ evs\<rparr>) =
        s\<lparr>currentData := JArray newRecords, dataFile := disk,
          events := events s @ (pre @ evs @ [Log CycleCompleted])\<rparr>"
      by (simp add: s1 log_as_update)
    moreover have "WriteFile \<in> set (pre @ evs @ [Log CycleCompleted])"
      using changed(4) by simp
    moreover have "JArray newRecords \<noteq> currentData s"
      using changed(3) by (simp add: s1)
    ultimately have "\<exists>nr f evs'. log CycleCompleted (s1\<lparr>currentData := JArray newRecords,
          dataFile := disk, events := events s1 @ evs\<rparr>) =
        s\<lparr>currentData := JArray nr, dataFile := f, events := events s @ evs'\<rparr> \<and>
        JArray nr \<noteq> currentData s \<and> WriteFile \<in> set evs'"
      by blast
    then show ?thesis
      unfolding cycle_outcome_def changed(1) using changed(2)
      by (simp add: cycle_has_changes_def)
  qed
qed

lemma cycle_outcome_fields:
  assumes "cycle_outcome c s s'"
  shows "isRunning s' = isRunning s" and "timeoutId s' = timeoutId s"
    and "timers s' = timers s" and "timerCount s' = timerCount s"
    and "currentData s' \<noteq> currentData s \<longleftrightarrow> cycle_has_changes c"
    and "WriteFile \<in> set (events_since s s') \<longleftrightarrow> cycle_has_changes c"
    and "\<not> cycle_has_changes c \<Longrightarrow> s'\<lparr>events := events s\<rparr> = s"
  using assms unfolding cycle_outcome_def by (auto simp: events_since_def)

lemma lottery_cycle_outcome:
  "cycle_outcome (lottery_cycle_changes e replies s) s (lottery_runScrapingCycle e replies s)"
proof -
  obtain r s1 where x: "lottery_extractWithRetry e replies (log CycleStarting s) = (r, s1)"
    by (cases "lottery_extractWithRetry e replies (log CycleStarting s)")
  obtain evs where "s1 = (log CycleStarting s)\<lparr>events := events (log CycleStarting s) @ evs\<rparr>"
    and nw: "WriteFile \<notin> set evs"
    using lottery_retry_loop_effect [of e replies 1 "log CycleStarting s"] x
    by (auto simp: lottery_extractWithRetry_def)
  then have s1: "s1 = s\<lparr>events := events s @ (Log CycleStarting # evs)\<rparr>"
    by (simp add: log_as_update)
  have nw': "WriteFile \<notin> set (Log CycleStarting # evs)" using nw by simp
  show ?thesis
  proof (cases r)
    case (Inl err)
    have "log (CycleFailed (message err)) s1 =
        s\<lparr>events := events s @ (Log CycleStarting # evs @ [Log (CycleFailed (message err))])\<rparr>"
      by (simp add: s1 log_as_update)
    moreover have "WriteFile \<notin> set (Log CycleStarting # evs @ [Log (CycleFailed (message err))])"
      using nw by simp
    ultimately have "\<exists>evs'. log (CycleFailed (message err)) s1 = s\<lparr>events := events s @ evs'\<rparr> \<and>
        WriteFile \<notin> set evs'" by blast
    then show ?thesis
      by (simp add: cycle_outcome_def lottery_cycle_changes_def lottery_runScrapingCycle_def x Inl
          cycle_has_changes_def)
  next
    case (Inr newData)
    from cycle_outcome_compose [OF s1 nw' lottery_processNewData_outcome [of e newData s1]]
    show ?thesis
      by (simp add: lottery_cycle_changes_def lottery_runScrapingCycle_def x Inr)
  qed
qed

lemma stock_cycle_outcome:
  "cycle_outcome (stock_cycle_changes e pages s) s (stock_runScrapingCycle e pages s)"
proof -
  obtain r s1 where x: "stock_extractWithRetry pages (log CycleStarting s) = (r, s1)"
    by (cases "stock_extractWithRetry pages (log CycleStarting s)")
  obtain evs where "s1 = (log CycleStarting s)\<lparr>events := events (log CycleStarting s) @ evs\<rparr>"
    and nw: "WriteFile \<notin> set evs"
    using stock_retry_loop_effect [of pages 1 "log CycleStarting s"] x
    by (auto simp: stock_extractWithRetry_def)
  then have s1: "s1 = s\<lparr>events := events s @ (Log CycleStarting # evs)\<rparr>"
    by (simp add: log_as_update)
  have nw': "WriteFile \<notin> set (Log CycleStarting # evs)" using nw by simp
  show ?thesis
  proof (cases r)
    case (Inl err)
    have "log (CycleFailed (message err)) s1 =
        s\<lparr>events := events s @ (Log CycleStarting # evs @ [Log (CycleFailed (message err))])\<rparr>"
      by (simp add: s1 log_as_update)
    moreover have "WriteFile \<notin> set (Log CycleStarting # evs @ [Log (CycleFailed (message err))])"
      using nw by simp
    ultimately have "\<exists>evs'. log (CycleFailed (message err)) s1 = s\<lparr>events := events s @ evs'\<rparr> \<and>
        WriteFile \<notin> set evs'" by blast
    then show ?thesis
      by (simp add: cycle_outcome_def stock_cycle_changes_def stock_runScrapingCycle_def x Inl
          cycle_has_changes_def)
  next
    case (Inr newData)
    from cycle_outcome_compose [OF s1 nw' stock_processNewData_outcome [of e newData s1]]
    show ?thesis
      by (simp add: stock_cycle_changes_def stock_runScrapingCycle_def x Inr)
  qed
qed

lemma scheduleNextRun_running:
  assumes "isRunning s"
  shows "isRunning (scheduleNextRun interval s)"
    and "timeoutId (scheduleNextRun interval s) = Some (timerCount s)"
    and "timers (scheduleNextRun interval s) = timers s @ [timerCount s]"
    and "timerCount (scheduleNextRun interval s) = timerCount s + 1"
    and "currentData (scheduleNextRun interval s) = currentData s"
    and "dataFile (scheduleNextRun interval s) = dataFile s"
  using assms by (simp_all add: scheduleNextRun_def Let_def)

lemma timer_fires_rearms:
  assumes run: "isRunning s"
    and keep: "isRunning (cycle (s\<lparr>timers := removeAll h (timers s)\<rparr>)) = isRunning s"
      "timers (cycle (s\<lparr>timers := removeAll h (timers s)\<rparr>)) = removeAll h (timers s)"
      "timerCount (cycle (s\<lparr>timers := removeAll h (timers s)\<rparr>)) = timerCount s"
  shows "isRunning (timer_fires cycle interval h s)"
    and "timeoutId (timer_fires cycle interval h s) = Some (timerCount s)"
    and "timers (timer_fires cycle interval h s) = removeAll h (timers s) @ [timerCount s]"
proof -
  let ?c = "cycle (s\<lparr>timers := removeAll h (timers s)\<rparr>)"
  have r: "isRunning ?c" using run keep(1) by simp
  have t: "timer_fires cycle interval h s = scheduleNextRun interval ?c"
    using run by (simp add: timer_fires_def)
  show "isRunning (timer_fires cycle interval h s)"
    and "timeoutId (timer_fires cycle interval h s) = Some (timerCount s)"
    and "timers (timer_fires cycle interval h s) = removeAll h (timers s) @ [timerCount s]"
    using scheduleNextRun_running [OF r, of interval] keep by (simp_all add: t)
qed

text \<open>
  C5. In a scraping cycle \<open>currentData\<close> changes exactly when the cycle gets a change
  set with at least one entry from \<^verbatim>\<open>processNewData\<close>, and \<^verbatim>\<open>fs.writeFile\<close> is called
  (by \<^verbatim>\<open>saveData\<close>) in exactly those cycles. A cycle whose \<^verbatim>\<open>extractWithRetry\<close> raises
  leaves everything but the trace as it was: \<open>currentData\<close>, the data file,
  \<open>isRunning\<close>, the timers. And whatever the cycle did, the timer callback of a running
  scheduler arms the next timer and leaves the scheduler running.
\<close>

theorem snapshot_replaced_iff_changes:
  "(currentData (lottery_runScrapingCycle e replies ls) \<noteq> currentData ls \<longleftrightarrow>
      cycle_has_changes (lottery_cycle_changes e replies ls)) \<and>
   (WriteFile \<in> set (events_since ls (lottery_runScrapingCycle e replies ls)) \<longleftrightarrow>
      cycle_has_changes (lottery_cycle_changes e replies ls)) \<and>
   (currentData (stock_runScrapingCycle e pages ss) \<noteq> currentData ss \<longleftrightarrow>
      cycle_has_changes (stock_cycle_changes e pages ss)) \<and>
   (WriteFile \<in> set (events_since ss (stock_runScrapingCycle e pages ss)) \<longleftrightarrow>
      cycle_has_changes (stock_cycle_changes e pages ss)) \<and>
   (fst (lottery_extractWithRetry e replies (log CycleStarting ls)) = Inl lerr \<longrightarrow>
      (lottery_runScrapingCycle e replies ls)\<lparr>events := events ls\<rparr> = ls) \<and>
   (fst (stock_extractWithRetry pages (log CycleStarting ss)) = Inl serr \<longrightarrow>
      (stock_runScrapingCycle e pages ss)\<lparr>events := events ss\<rparr> = ss) \<and>
   (isRunning ls \<longrightarrow>
      isRunning (timer_fires (lottery_runScrapingCycle e replies) interval h ls) \<and>
      timeoutId (timer_fires (lottery_runScrapingCycle e replies) interval h ls) = Some (timerCount ls) \<and>
      timers (timer_fires (lottery_runScrapingCycle e replies) interval h ls) =
        removeAll h (timers ls) @ [timerCount ls]) \<and>
   (isRunning ss \<longrightarrow>
      isRunning (timer_fires (stock_runScrapingCycle e pages) interval h ss) \<and>
      timeoutId (timer_fires (stock_runScrapingCycle e pages) interval h ss) = Some (timerCount ss) \<and>
      timers (timer_fires (stock_runScrapingCycle e pages) interval h ss) =
        removeAll h (timers ss) @ [timerCount ss])"
proof -
  note l = cycle_outcome_fields [OF lottery_cycle_outcome]
  note s = cycle_outcome_fields [OF stock_cycle_outcome]
  have lf: "(lottery_runScrapingCycle e replies ls)\<lparr>events := events ls\<rparr> = ls"
    if "fst (lottery_extractWithRetry e replies (log CycleStarting ls)) = Inl lerr"
  proof (rule l(7))
    from that show "\<not> cycle_has_changes (lottery_cycle_changes e replies ls)"
      by (cases "lottery_extractWithRetry e replies (log CycleStarting ls)")
        (simp add: lottery_cycle_changes_def cycle_has_changes_def)
  qed
  have sf: "(stock_runScrapingCycle e pages ss)\<lparr>events := events ss\<rparr> = ss"
    if "fst (stock_extractWithRetry pages (log CycleStarting ss)) = Inl serr"
  proof (rule s(7))
    from that show "\<not> cycle_has_changes (stock_cycle_changes e pages ss)"
      by (cases "stock_extractWithRetry pages (log CycleStarting ss)")
        (simp add: stock_cycle_changes_def cycle_has_changes_def)
  qed
  have lt: "isRunning (timer_fires (lottery_runScrapingCycle e replies) interval h ls) \<and>
      timeoutId (timer_fires (lottery_runScrapingCycle e replies) interval h ls) = Some (timerCount ls) \<and>
      timers (timer_fires (lottery_runScrapingCycle e replies) interval h ls) =
        removeAll h (timers ls) @ [timerCount ls]" if "isRunning ls"
    using timer_fires_rearms [OF that, of "lottery_runScrapingCycle e replies" h interval]
    by (simp add: l(1,3,4))
  have st: "isRunning (timer_fires (stock_runScrapingCycle e pages) interval h ss) \<and>
      timeoutId (timer_fires (stock_runScrapingCycle e pages) interval h ss) = Some (timerCount ss) \<and>
      timers (timer_fires (stock_runScrapingCycle e pages) interval h ss) =
        removeAll h (timers ss) @ [timerCount ss]" if "isRunning ss"
    using timer_fires_rearms [OF that, of "stock_runScrapingCycle e pages" h interval]
    by (simp add: s(1,3,4))
  from l(5,6) s(5,6) lf sf lt st show ?thesis by blast
qed

theorem snapshot_replaced_iff_changes_witness:
  "fst (lottery_extractWithRetry env0 always_rejects (log CycleStarting lottery_running))
     = Inl network_down \<and>
   (lottery_runScrapingCycle env0 always_rejects lottery_running)\<lparr>events := events lottery_running\<rparr>
     = lottery_running \<and>
   fst (stock_extractWithRetry always_throws (log CycleStarting stock_running)) = Inl network_down \<and>
   (stock_runScrapingCycle env0 always_throws stock_running)\<lparr>events := events stock_running\<rparr>
     = stock_running \<and>
   isRunning lottery_running \<and>
   isRunning (timer_fires (lottery_runScrapingCycle env0 always_rejects) 600000 0 lottery_running) \<and>
   isRunning stock_running \<and>
   isRunning (timer_fires (stock_runScrapingCycle env0 always_throws) 600000 0 stock_running) \<and>
   cycle_has_changes (stock_cycle_changes env0 one_row stock_idle) \<and>
   currentData (stock_runScrapingCycle env0 one_row stock_idle) \<noteq> currentData stock_idle \<and>
   WriteFile \<in> set (events_since stock_idle (stock_runScrapingCycle env0 one_row stock_idle))"
proof -
  have a: "fst (lottery_extractWithRetry env0 always_rejects (log CycleStarting lottery_running))
      = Inl network_down"
    by (simp add: lottery_all_rejected [of always_rejects "\<lambda>n. network_down"] always_rejects_def)
  have b: "fst (stock_extractWithRetry always_throws (log CycleStarting stock_running)) = Inl network_down"
    by (simp add: stock_all_thrown [of always_throws "\<lambda>n. network_down"] always_throws_def)
  have c: "isRunning lottery_running" "isRunning stock_running"
    by (simp_all add: lottery_running_def stock_running_def)
  have d: "cycle_has_changes (stock_cycle_changes env0 one_row stock_idle)"
    by (simp add: stock_cycle_changes_def stock_extractWithRetry_def stock_retry_loop.simps [of one_row]
        one_row_def maxRetries_def stock_processNewData_def process_changes_def as_array_def
        constructor_def detectChanges_Maps new_Map_def totalChanges_def cycle_has_changes_def
        log_as_update emit_as_update Let_def stock_idle_def)
  note t = snapshot_replaced_iff_changes [where e = env0 and replies = always_rejects
      and pages = always_throws and ls = lottery_running and ss = stock_running
      and lerr = network_down and serr = network_down and interval = 600000 and h = 0]
  note u = snapshot_replaced_iff_changes [where e = env0 and pages = one_row and ss = stock_idle]
  from t a b c
  have "(lottery_runScrapingCycle env0 always_rejects lottery_running)\<lparr>events := events lottery_running\<rparr>
      = lottery_running"
    and "(stock_runScrapingCycle env0 always_throws stock_running)\<lparr>events := events stock_running\<rparr>
      = stock_running"
    and "isRunning (timer_fires (lottery_runScrapingCycle env0 always_rejects) 600000 0 lottery_running)"
    and "isRunning (timer_fires (stock_runScrapingCycle env0 always_throws) 600000 0 stock_running)"
    by blast+
  moreover from u d
  have "currentData (stock_runScrapingCycle env0 one_row stock_idle) \<noteq> currentData stock_idle"
    and "WriteFile \<in> set (events_since stock_idle (stock_runScrapingCycle env0 one_row stock_idle))"
    by blast+
  ultimately show ?thesis using a b c d by blast
qed

section \<open>Properties of the scheduler\<close>

lemma process_outcome_fields:
  assumes "process_outcome res s"
  shows "isRunning (snd res) = isRunning s" and "timeoutId (snd res) = timeoutId s"
    and "timers (snd res) = timers s" and "timerCount (snd res) = timerCount s"
  using assms unfolding process_outcome_def by auto

lemma lottery_extractWithRetry_fields:
  "isRunning (snd (lottery_extractWithRetry e replies s)) = isRunning s"
  "currentData (snd (lottery_extractWithRetry e replies s)) = currentData s"
  "dataFile (snd (lottery_extractWithRetry e replies s)) = dataFile s"
  using lottery_retry_loop_effect [of e replies 1 s]
  by (auto simp: lottery_extractWithRetry_def)

lemma stock_extractWithRetry_fields:
  "isRunning (snd (stock_extractWithRetry pages s)) = isRunning s"
  "currentData (snd (stock_extractWithRetry pages s)) = currentData s"
  "dataFile (snd (stock_extractWithRetry pages s)) = dataFile s"
  using stock_retry_loop_effect [of pages 1 s]
  by (auto simp: stock_extractWithRetry_def)

lemma fetchLottoData_isRunning:
  "isRunning (snd (fetchLottoData e reply s)) = isRunning s"
  using fetchLottoData_effect [of e reply s] by auto

lemma scheduleNextRun_isRunning: "isRunning (scheduleNextRun interval s) = isRunning s"
  by (simp add: scheduleNextRun_def Let_def)

lemma timer_fires_isRunning:
  assumes "\<And>s'. isRunning (cycle s') = isRunning s'"
  shows "isRunning (timer_fires cycle interval h s) = isRunning s"
  using assms by (simp add: timer_fires_def Let_def scheduleNextRun_isRunning)

lemma start_when_stopped:
  assumes "\<not> isRunning s" and "\<And>s'. isRunning (cycle s') = isRunning s'"
  shows "isRunning (start cycle e interval s)"
  using assms by (simp add: start_def Let_def scheduleNextRun_isRunning)

lemma start_when_running:
  "isRunning s \<Longrightarrow> start cycle e interval s = log AlreadyRunning s"
  by (simp add: start_def)

lemma stop_when_running:
  assumes "isRunning s"
  shows "\<not> isRunning (stop s)" and "timeoutId (stop s) = None"
    and "timeoutId s = Some h \<Longrightarrow> h \<notin> set (timers (stop s))"
    and "timeoutId s = Some h \<Longrightarrow> ClearTimeout h \<in> set (events_since s (stop s))"
    and "currentData (stop s) = currentData s" and "dataFile (stop s) = dataFile s"
  using assms by (auto simp: stop_def Let_def events_since_def split: option.splits)

lemma stop_when_stopped: "\<not> isRunning s \<Longrightarrow> stop s = log NotRunning s"
  by (simp add: stop_def)

lemma scheduler_inv_stop:
  assumes "scheduler_inv s"
  shows "scheduler_inv (stop s)" and "timers (stop s) = []"
proof -
  show "timers (stop s) = []"
  proof (cases "isRunning s")
    case False
    with assms show ?thesis
      by (auto simp: scheduler_inv_def stop_def split: list.splits)
  next
    case True
    with assms show ?thesis
      by (auto simp: scheduler_inv_def stop_def Let_def split: list.splits option.splits)
  qed
  then show "scheduler_inv (stop s)" by (simp add: scheduler_inv_def)
qed

lemma scheduler_inv_schedule:
  assumes "timers s = []"
  shows "scheduler_inv (scheduleNextRun interval s)"
  using assms by (simp add: scheduler_inv_def scheduleNextRun_def Let_def)

lemma scheduler_inv_log [simp]: "scheduler_inv (log m s) = scheduler_inv s"
  by (simp add: scheduler_inv_def split: list.splits)

lemma scheduler_inv_start:
  assumes inv: "scheduler_inv s"
    and keep: "\<And>s'. timers (cycle s') = timers s'"
  shows "scheduler_inv (start cycle e interval s)"
proof (cases "isRunning s")
  case True
  with inv show ?thesis by (simp add: start_def)
next
  case False
  with inv have "timers s = []" by (auto simp: scheduler_inv_def split: list.splits)
  then have "timers (cycle (loadExistingData e (log SchedulerStarting (s\<lparr>isRunning := True\<rparr>)))) = []"
    by (simp add: keep)
  from scheduler_inv_schedule [OF this] False show ?thesis
    by (simp add: start_def Let_def)
qed

lemma scheduler_inv_timer_fires:
  assumes inv: "scheduler_inv s" and armed: "h \<in> set (timers s)"
    and keep: "\<And>s'. timers (cycle s') = timers s'" "\<And>s'. isRunning (cycle s') = isRunning s'"
  shows "scheduler_inv (timer_fires cycle interval h s)"
proof -
  from inv armed have t: "timers s = [h]" and r: "isRunning s"
    by (auto simp: scheduler_inv_def split: list.splits)
  have "timers (cycle (s\<lparr>timers := removeAll h (timers s)\<rparr>)) = []"
    by (simp add: keep t)
  from scheduler_inv_schedule [OF this] r show ?thesis
    by (simp add: timer_fires_def Let_def)
qed

text \<open>
  C9. With \<^verbatim>\<open>start\<close>, \<^verbatim>\<open>stop\<close> and the timer callback each taken as one step:
  \<^verbatim>\<open>start()\<close> of a stopped scheduler leaves it running, and of a running one only logs
  a line; \<^verbatim>\<open>stop()\<close> of a running scheduler leaves it stopped with \<open>timeoutId\<close>
  cleared and the timer it named cancelled, and of a stopped one only logs a line; no
  other operation changes \<open>isRunning\<close>. Moreover at most one timer is ever armed, the
  one \<open>timeoutId\<close> names, so that after \<^verbatim>\<open>stop()\<close> no timer is armed.
\<close>

theorem scheduler_two_states:
  "(\<not> isRunning ls \<longrightarrow> isRunning (lottery_start e replies interval ls)) \<and>
   (\<not> isRunning ss \<longrightarrow> isRunning (stock_start e pages interval ss)) \<and>
   (isRunning ls \<longrightarrow> lottery_start e replies interval ls = log AlreadyRunning ls) \<and>
   (isRunning ss \<longrightarrow> stock_start e pages interval ss = log AlreadyRunning ss) \<and>
   (isRunning s \<longrightarrow>
      \<not> isRunning (stop s) \<and> timeoutId (stop s) = None \<and>
      (\<forall>t. timeoutId s = Some t \<longrightarrow>
         t \<notin> set (timers (stop s)) \<and> ClearTimeout t \<in> set (events_since s (stop s)))) \<and>
   (\<not> isRunning s \<longrightarrow> stop s = log NotRunning s) \<and>
   isRunning (loadExistingData e s) = isRunning s \<and>
   isRunning (saveData e records s) = isRunning s \<and>
   isRunning (scheduleNextRun interval s) = isRunning s \<and>
   isRunning (snd (fetchLottoData e reply ls)) = isRunning ls \<and>
   isRunning (snd (lottery_extractWithRetry e replies ls)) = isRunning ls \<and>
   isRunning (snd (stock_extractWithRetry pages ss)) = isRunning ss \<and>
   isRunning (snd (lottery_processNewData e lnew ls)) = isRunning ls \<and>
   isRunning (snd (stock_processNewData e snew ss)) = isRunning ss \<and>
   isRunning (lottery_runScrapingCycle e replies ls) = isRunning ls \<and>
   isRunning (stock_runScrapingCycle e pages ss) = isRunning ss \<and>
   isRunning (timer_fires (lottery_runScrapingCycle e replies) interval h ls) = isRunning ls \<and>
   isRunning (timer_fires (stock_runScrapingCycle e pages) interval h ss) = isRunning ss \<and>
   scheduler_inv (constructor file0 :: 'r manager) \<and>
   (scheduler_inv ls \<longrightarrow> scheduler_inv (lottery_start e replies interval ls)) \<and>
   (scheduler_inv ss \<longrightarrow> scheduler_inv (stock_start e pages interval ss)) \<and>
   (scheduler_inv ls \<and> h \<in> set (timers ls) \<longrightarrow>
      scheduler_inv (timer_fires (lottery_runScrapingCycle e replies) interval h ls)) \<and>
   (scheduler_inv ss \<and> h \<in> set (timers ss) \<longrightarrow>
      scheduler_inv (timer_fires (stock_runScrapingCycle e pages) interval h ss)) \<and>
   (scheduler_inv s \<longrightarrow> scheduler_inv (stop s) \<and> timers (stop s) = [])"
proof -
  note l = cycle_outcome_fields [OF lottery_cycle_outcome]
  note k = cycle_outcome_fields [OF stock_cycle_outcome]
  have lc: "isRunning (lottery_runScrapingCycle e replies s') = isRunning s'"
    "timers (lottery_runScrapingCycle e replies s') = timers s'" for s'
    by (rule l)+
  have sc: "isRunning (stock_runScrapingCycle e pages s') = isRunning s'"
    "timers (stock_runScrapingCycle e pages s') = timers s'" for s'
    by (rule k)+
  have "\<not> isRunning ls \<longrightarrow> isRunning (lottery_start e replies interval ls)"
    unfolding lottery_start_def using start_when_stopped [OF _ lc(1)] by blast
  moreover have "\<not> isRunning ss \<longrightarrow> isRunning (stock_start e pages interval ss)"
    unfolding stock_start_def using start_when_stopped [OF _ sc(1)] by blast
  moreover have "isRunning ls \<longrightarrow> lottery_start e replies interval ls = log AlreadyRunning ls"
    by (simp add: lottery_start_def start_when_running)
  moreover have "isRunning ss \<longrightarrow> stock_start e pages interval ss = log AlreadyRunning ss"
    by (simp add: stock_start_def start_when_running)
  moreover have "isRunning s \<longrightarrow>
      \<not> isRunning (stop s) \<and> timeoutId (stop s) = None \<and>
      (\<forall>t. timeoutId s = Some t \<longrightarrow>
         t \<notin> set (timers (stop s)) \<and> ClearTimeout t \<in> set (events_since s (stop s)))"
    using stop_when_running [of s] by blast
  moreover have "\<not> isRunning s \<longrightarrow> stop s = log NotRunning s"
    by (simp add: stop_when_stopped)
  moreover have "isRunning (loadExistingData e s) = isRunning s"
    and "isRunning (saveData e records s) = isRunning s"
    and "isRunning (scheduleNextRun interval s) = isRunning s"
    by (simp_all add: scheduleNextRun_isRunning)
  moreover have "isRunning (snd (fetchLottoData e reply ls)) = isRunning ls"
    by (rule fetchLottoData_isRunning)
  moreover have "isRunning (snd (lottery_extractWithRetry e replies ls)) = isRunning ls"
    and "isRunning (snd (stock_extractWithRetry pages ss)) = isRunning ss"
    by (rule lottery_extractWithRetry_fields stock_extractWithRetry_fields)+
  moreover have "isRunning (snd (lottery_processNewData e lnew ls)) = isRunning ls"
    by (rule process_outcome_fields [OF lottery_processNewData_outcome])
  moreover have "isRunning (snd (stock_processNewData e snew ss)) = isRunning ss"
    by (rule process_outcome_fields [OF stock_processNewData_outcome])
  moreover note lc(1) [of ls] sc(1) [of ss]
  moreover have "isRunning (timer_fires (lottery_runScrapingCycle e replies) interval h ls) = isRunning ls"
    by (rule timer_fires_isRunning [OF lc(1)])
  moreover have "isRunning (timer_fires (stock_runScrapingCycle e pages) interval h ss) = isRunning ss"
    by (rule timer_fires_isRunning [OF sc(1)])
  moreover have "scheduler_inv (constructor file0 :: 'r manager)"
    by (simp add: scheduler_inv_def constructor_def)
  moreover have "scheduler_inv ls \<longrightarrow> scheduler_inv (lottery_start e replies interval ls)"
    unfolding lottery_start_def using scheduler_inv_start [OF _ lc(2)] by blast
  moreover have "scheduler_inv ss \<longrightarrow> scheduler_inv (stock_start e pages interval ss)"
    unfolding stock_start_def using scheduler_inv_start [OF _ sc(2)] by blast
  moreover have "scheduler_inv ls \<and> h \<in> set (timers ls) \<longrightarrow>
      scheduler_inv (timer_fires (lottery_runScrapingCycle e replies) interval h ls)"
    using scheduler_inv_timer_fires [OF _ _ lc(2) lc(1)] by blast
  moreover have "scheduler_inv ss \<and> h \<in> set (timers ss) \<longrightarrow>
      scheduler_inv (timer_fires (stock_runScrapingCycle e pages) interval h ss)"
    using scheduler_inv_timer_fires [OF _ _ sc(2) sc(1)] by blast
  moreover have "scheduler_inv s \<longrightarrow> scheduler_inv (stop s) \<and> timers (stop s) = []"
    using scheduler_inv_stop [of s] by blast
  ultimately show ?thesis by (intro conjI)
qed

theorem scheduler_two_states_witness:
  "\<not> isRunning lottery_idle \<and> isRunning (lottery_start env0 always_rejects 600000 lottery_idle) \<and>
   \<not> isRunning stock_idle \<and> isRunning (stock_start env0 one_row 600000 stock_idle) \<and>
   isRunning lottery_armed \<and>
   lottery_start env0 always_rejects 600000 lottery_armed = log AlreadyRunning lottery_armed \<and>
   isRunning stock_armed \<and>
   stock_start env0 one_row 600000 stock_armed = log AlreadyRunning stock_armed \<and>
   timeoutId stock_armed = Some 0 \<and>
   \<not> isRunning (stop stock_armed) \<and> timeoutId (stop stock_armed) = None \<and>
   0 \<notin> set (timers (stop stock_armed)) \<and>
   ClearTimeout 0 \<in> set (events_since stock_armed (stop stock_armed)) \<and>
   stop stock_idle = log NotRunning stock_idle \<and>
   scheduler_inv lottery_idle \<and> scheduler_inv (lottery_start env0 always_rejects 600000 lottery_idle) \<and>
   scheduler_inv stock_idle \<and> scheduler_inv (stock_start env0 one_row 600000 stock_idle) \<and>
   timers (stop (stock_start env0 one_row 600000 stock_idle)) = [] \<and>
   scheduler_inv lottery_armed \<and> 0 \<in> set (timers lottery_armed) \<and>
   scheduler_inv (timer_fires (lottery_runScrapingCycle env0 always_rejects) 600000 0 lottery_armed) \<and>
   scheduler_inv stock_armed \<and> 0 \<in> set (timers stock_armed) \<and>
   scheduler_inv (timer_fires (stock_runScrapingCycle env0 one_row) 600000 0 stock_armed) \<and>
   timers (stop stock_armed) = []"
proof -
  have idle: "\<not> isRunning lottery_idle" "\<not> isRunning stock_idle"
    "scheduler_inv lottery_idle" "scheduler_inv stock_idle"
    by (simp_all add: lottery_idle_def stock_idle_def constructor_def scheduler_inv_def)
  have armed: "isRunning lottery_armed" "isRunning stock_armed" "timeoutId stock_armed = Some 0"
    "scheduler_inv lottery_armed" "scheduler_inv stock_armed"
    "0 \<in> set (timers lottery_armed)" "0 \<in> set (timers stock_armed)"
    by (simp_all add: lottery_armed_def stock_armed_def constructor_def scheduler_inv_def)
  note a = scheduler_two_states [where e = env0 and replies = always_rejects and pages = one_row
      and interval = 600000 and ls = lottery_idle and ss = stock_idle and s = stock_idle]
  note b = scheduler_two_states [where e = env0 and replies = always_rejects and pages = one_row
      and interval = 600000 and ls = lottery_armed and ss = stock_armed and s = stock_armed
      and h = 0]
  note c = scheduler_two_states [where s = "stock_start env0 one_row 600000 stock_idle"]
  from a idle have a': "isRunning (lottery_start env0 always_rejects 600000 lottery_idle)"
    "isRunning (stock_start env0 one_row 600000 stock_idle)"
    "stop stock_idle = log NotRunning stock_idle"
    "scheduler_inv (lottery_start env0 always_rejects 600000 lottery_idle)"
    "scheduler_inv (stock_start env0 one_row 600000 stock_idle)"
    by blast+
  from c a'(5) have c': "timers (stop (stock_start env0 one_row 600000 stock_idle)) = []"
    by blast
  from b armed have b': "lottery_start env0 always_rejects 600000 lottery_armed = log AlreadyRunning lottery_armed"
    "stock_start env0 one_row 600000 stock_armed = log AlreadyRunning stock_armed"
    "\<not> isRunning (stop stock_armed)" "timeoutId (stop stock_armed) = None"
    "0 \<notin> set (timers (stop stock_armed))"
    "ClearTimeout 0 \<in> set (events_since stock_armed (stop stock_armed))"
    "scheduler_inv (timer_fires (lottery_runScrapingCycle env0 always_rejects) 600000 0 lottery_armed)"
    "scheduler_inv (timer_fires (stock_runScrapingCycle env0 one_row) 600000 0 stock_armed)"
    "timers (stop stock_armed) = []"
    by blast+
  from idle armed a' b' c' show ?thesis by blast
qed

end
